theory Spec2Isabelle
  imports Main
begin

section \<open>Strings as Python sees them\<close>

text \<open>
  A command is a Python \<open>str\<close>. It is modelled as a \<open>string\<close> whose characters are the
  code points below 256; the character classes below are Python's on that range.
\<close>

definition py_isspace :: "char \<Rightarrow> bool" where
  \<comment> \<open>\<open>str.isspace\<close>, which is also what \<open>str.strip()\<close> removes and what \<open>\s\<close> matches\<close>
  "py_isspace c =
     (let n = (of_char c :: nat)
      in (9 \<le> n \<and> n \<le> 13) \<or> (28 \<le> n \<and> n \<le> 32) \<or> n = 133 \<or> n = 160)"

definition py_isword :: "char \<Rightarrow> bool" where
  \<comment> \<open>what \<open>\w\<close> matches: alphanumeric characters and the underscore\<close>
  "py_isword c =
     (let n = (of_char c :: nat)
      in (48 \<le> n \<and> n \<le> 57) \<or> (65 \<le> n \<and> n \<le> 90) \<or> n = 95 \<or> (97 \<le> n \<and> n \<le> 122)
         \<or> n = 170 \<or> n = 178 \<or> n = 179 \<or> n = 181 \<or> n = 185 \<or> n = 186
         \<or> (188 \<le> n \<and> n \<le> 190) \<or> (192 \<le> n \<and> n \<le> 214)
         \<or> (216 \<le> n \<and> n \<le> 246) \<or> (248 \<le> n \<and> n \<le> 255))"

definition lower_char :: "char \<Rightarrow> char" where
  "lower_char c =
     (let n = (of_char c :: nat)
      in if (65 \<le> n \<and> n \<le> 90) \<or> (192 \<le> n \<and> n \<le> 222 \<and> n \<noteq> 215)
         then char_of (n + 32) else c)"

definition lower :: "string \<Rightarrow> string" where
  \<comment> \<open>\<open>str.lower()\<close>\<close>
  "lower s = map lower_char s"

definition strip :: "string \<Rightarrow> string" where
  \<comment> \<open>\<open>str.strip()\<close>\<close>
  "strip s = rev (dropWhile py_isspace (rev (dropWhile py_isspace s)))"

fun startswith :: "string \<Rightarrow> string \<Rightarrow> bool" where
  \<comment> \<open>\<open>s.startswith(p)\<close>\<close>
  "startswith s [] = True"
| "startswith [] (p # ps) = False"
| "startswith (c # cs) (p # ps) = (c = p \<and> startswith cs ps)"

definition endswith :: "string \<Rightarrow> string \<Rightarrow> bool" where
  \<comment> \<open>\<open>s.endswith(p)\<close>\<close>
  "endswith s p = startswith (rev s) (rev p)"

fun contains :: "string \<Rightarrow> string \<Rightarrow> bool" where
  \<comment> \<open>\<open>sub in s\<close>\<close>
  "contains sub [] = (sub = [])"
| "contains sub (c # cs) = (startswith (c # cs) sub \<or> contains sub cs)"

fun str_split :: "char \<Rightarrow> string \<Rightarrow> string list" where
  \<comment> \<open>\<open>s.split(sep)\<close> for a separator of one character\<close>
  "str_split sep [] = [[]]"
| "str_split sep (c # cs) =
     (if c = sep then [] # str_split sep cs
      else (case str_split sep cs of
              [] \<Rightarrow> [[c]]
            | piece # pieces \<Rightarrow> (c # piece) # pieces))"

fun str_join :: "string \<Rightarrow> string list \<Rightarrow> string" where
  \<comment> \<open>\<open>sep.join(parts)\<close>\<close>
  "str_join sep [] = []"
| "str_join sep [p] = p"
| "str_join sep (p # q # ps) = p @ sep @ str_join sep (q # ps)"

section \<open>Regular expressions and \<open>re.search\<close>\<close>

text \<open>
  The analyzer uses \<open>re.search(pattern, s)\<close> only for its truth value: whether some
  substring of \<open>s\<close> is matched by the pattern. The patterns of the rule tables use
  literals, \<open>.\<close>, \<open>\s\<close>, \<open>\w\<close>, bracket classes, grouping with alternation and
  the repetitions \<open>*\<close>, \<open>+\<close> and \<open>{3}\<close>; they are written here as syntax trees and
  matched by derivatives.
\<close>

datatype class_item = Chr char | Range char char | SpaceItem

datatype atom =
    Lit char                \<comment> \<open>an ordinary or escaped character\<close>
  | AnyChar                 \<comment> \<open>\<open>.\<close>: any character but the newline\<close>
  | Space                   \<comment> \<open>\<open>\s\<close>\<close>
  | WordChar                \<comment> \<open>\<open>\w\<close>\<close>
  | OneOf "class_item list" \<comment> \<open>\<open>[...]\<close>\<close>
  | NoneOf "class_item list" \<comment> \<open>\<open>[^...]\<close>\<close>

datatype regex =
    Nothing
  | Eps
  | Atom atom
  | Seq regex regex
  | Alt regex regex
  | Star regex

fun item_ok :: "class_item \<Rightarrow> char \<Rightarrow> bool" where
  "item_ok (Chr d) c = (c = d)"
| "item_ok (Range lo hi) c = ((of_char lo :: nat) \<le> of_char c \<and> (of_char c :: nat) \<le> of_char hi)"
| "item_ok SpaceItem c = py_isspace c"

fun atom_ok :: "atom \<Rightarrow> char \<Rightarrow> bool" where
  "atom_ok (Lit d) c = (c = d)"
| "atom_ok AnyChar c = (c \<noteq> CHR 0x0A)"
| "atom_ok Space c = py_isspace c"
| "atom_ok WordChar c = py_isword c"
| "atom_ok (OneOf items) c = list_ex (\<lambda>i. item_ok i c) items"
| "atom_ok (NoneOf items) c = (\<not> list_ex (\<lambda>i. item_ok i c) items)"

fun nullable :: "regex \<Rightarrow> bool" where
  "nullable Nothing = False"
| "nullable Eps = True"
| "nullable (Atom a) = False"
| "nullable (Seq r s) = (nullable r \<and> nullable s)"
| "nullable (Alt r s) = (nullable r \<or> nullable s)"
| "nullable (Star r) = True"

definition mk_seq :: "regex \<Rightarrow> regex \<Rightarrow> regex" where
  "mk_seq r s = (if r = Nothing \<or> s = Nothing then Nothing else if r = Eps then s else Seq r s)"

definition mk_alt :: "regex \<Rightarrow> regex \<Rightarrow> regex" where
  "mk_alt r s = (if r = Nothing then s else if s = Nothing then r else Alt r s)"

fun deriv :: "char \<Rightarrow> regex \<Rightarrow> regex" where
  "deriv c Nothing = Nothing"
| "deriv c Eps = Nothing"
| "deriv c (Atom a) = (if atom_ok a c then Eps else Nothing)"
| "deriv c (Seq r s) =
     (if nullable r then mk_alt (mk_seq (deriv c r) s) (deriv c s) else mk_seq (deriv c r) s)"
| "deriv c (Alt r s) = mk_alt (deriv c r) (deriv c s)"
| "deriv c (Star r) = mk_seq (deriv c r) (Star r)"

fun match_prefix :: "regex \<Rightarrow> string \<Rightarrow> bool" where
  \<comment> \<open>\<open>re.match\<close>: some prefix of the string is matched\<close>
  "match_prefix r [] = nullable r"
| "match_prefix r (c # cs) = (nullable r \<or> match_prefix (deriv c r) cs)"

fun re_search :: "regex \<Rightarrow> string \<Rightarrow> bool" where
  \<comment> \<open>\<open>re.search\<close>: a match starts at some position of the string\<close>
  "re_search r [] = nullable r"
| "re_search r (c # cs) = (match_prefix r (c # cs) \<or> re_search r cs)"

fun lit :: "string \<Rightarrow> regex" where
  "lit [] = Eps"
| "lit [c] = Atom (Lit c)"
| "lit (c # d # cs) = Seq (Atom (Lit c)) (lit (d # cs))"

fun seqs :: "regex list \<Rightarrow> regex" where
  "seqs [] = Eps"
| "seqs [r] = r"
| "seqs (r # s # rs) = Seq r (seqs (s # rs))"

fun alts :: "regex list \<Rightarrow> regex" where
  "alts [] = Nothing"
| "alts [r] = r"
| "alts (r # s # rs) = Alt r (alts (s # rs))"

definition some :: "regex \<Rightarrow> regex" where
  "some r = Seq r (Star r)"

definition ws1 :: regex where \<comment> \<open>\<open>\s+\<close>\<close>
  "ws1 = some (Atom Space)"

definition ws0 :: regex where \<comment> \<open>\<open>\s*\<close>\<close>
  "ws0 = Star (Atom Space)"

definition any0 :: regex where \<comment> \<open>\<open>.*\<close>\<close>
  "any0 = Star (Atom AnyChar)"

text \<open>
  Two properties of a pattern, used to show that stripping a string does not change
  whether a critical pattern matches it: no match ends in a whitespace character, and no
  match is empty or starts with one.
\<close>

fun ends_nonspace :: "regex \<Rightarrow> bool" where
  "ends_nonspace Nothing = True"
| "ends_nonspace Eps = True"
| "ends_nonspace (Atom a) = (\<forall>c. atom_ok a c \<longrightarrow> \<not> py_isspace c)"
| "ends_nonspace (Seq r s) = (ends_nonspace s \<and> (nullable s \<longrightarrow> ends_nonspace r))"
| "ends_nonspace (Alt r s) = (ends_nonspace r \<and> ends_nonspace s)"
| "ends_nonspace (Star r) = ends_nonspace r"

definition starts_nonspace :: "regex \<Rightarrow> bool" where
  "starts_nonspace r = (\<not> nullable r \<and> (\<forall>c. py_isspace c \<longrightarrow> deriv c r = Nothing))"


section \<open>The rule tables\<close>

text \<open>
  \<open>SafetyAnalyzer.setup_rules\<close>. A dictionary of patterns is a list of pairs in insertion
  order, which is the order Python iterates it in.
\<close>

definition critical_patterns :: "(regex \<times> string) list" where
  "critical_patterns =
   [ \<comment> \<open>\<open>rm\\s+-rf\\s+/\<close>\<close>
     (seqs [lit ''rm'', ws1, lit ''-rf'', ws1, lit ''/''],
      ''Attempting to delete root filesystem''),
     \<comment> \<open>\<open>:\\(\\)\\{\\s*:\\|\\:&\\s*\\};:\<close>\<close>
     (seqs [lit '':(){'', ws0, lit '':|:&'', ws0, lit ''};:''],
      ''Fork bomb attempt''),
     \<comment> \<open>\<open>dd\\s+if=/dev/(zero|random)\\s+of=/dev/[sh]d[a-z]\<close>\<close>
     (seqs [lit ''dd'', ws1, lit ''if=/dev/'', alts [lit ''zero'', lit ''random''], ws1,
            lit ''of=/dev/'', Atom (OneOf [Chr CHR ''s'', Chr CHR ''h'']), lit ''d'',
            Atom (OneOf [Range CHR ''a'' CHR ''z''])],
      ''Attempting to overwrite disk''),
     \<comment> \<open>\<open>mkfs\\.\\w+\\s+/dev/[sh]d[a-z]\<close>\<close>
     (seqs [lit ''mkfs.'', some (Atom WordChar), ws1, lit ''/dev/'',
            Atom (OneOf [Chr CHR ''s'', Chr CHR ''h'']), lit ''d'',
            Atom (OneOf [Range CHR ''a'' CHR ''z''])],
      ''Attempting to format disk''),
     \<comment> \<open>\<open>rm\\s+-rf\\s+\\*\<close>\<close>
     (seqs [lit ''rm'', ws1, lit ''-rf'', ws1, lit ''*''],
      ''Attempting to delete all files recursively''),
     \<comment> \<open>\<open>echo\\s+.*>\\s*/etc/(passwd|shadow|sudoers)\<close>\<close>
     (seqs [lit ''echo'', ws1, any0, lit ''>'', ws0, lit ''/etc/'',
            alts [lit ''passwd'', lit ''shadow'', lit ''sudoers'']],
      ''Attempting to modify critical system files'') ]"

definition high_patterns :: "(regex \<times> string) list" where
  "high_patterns =
   [ \<comment> \<open>\<open>sudo\\s+rm\\s+-rf\<close>\<close>
     (seqs [lit ''sudo'', ws1, lit ''rm'', ws1, lit ''-rf''],
      ''Recursive deletion with sudo privileges''),
     \<comment> \<open>\<open>chmod\\s+-R\\s+777\\s+/\<close>\<close>
     (seqs [lit ''chmod'', ws1, lit ''-R'', ws1, lit ''777'', ws1, lit ''/''],
      ''Setting dangerous permissions on root''),
     \<comment> \<open>\<open>chown\\s+-R\\s+.*:/\<close>\<close>
     (seqs [lit ''chown'', ws1, lit ''-R'', ws1, any0, lit '':/''],
      ''Changing ownership of system directories''),
     \<comment> \<open>\<open>killall\\s+-9\\s+(init|systemd|kernel)\<close>\<close>
     (seqs [lit ''killall'', ws1, lit ''-9'', ws1,
            alts [lit ''init'', lit ''systemd'', lit ''kernel'']],
      ''Attempting to kill critical system processes''),
     \<comment> \<open>\<open>(reboot|shutdown|halt)\\s+(-f|--force)\<close>\<close>
     (seqs [alts [lit ''reboot'', lit ''shutdown'', lit ''halt''], ws1,
            alts [lit ''-f'', lit ''--force'']],
      ''Forced system shutdown/reboot''),
     \<comment> \<open>\<open>iptables\\s+-F\<close>\<close>
     (seqs [lit ''iptables'', ws1, lit ''-F''],
      ''Flushing firewall rules''),
     \<comment> \<open>\<open>history\\s+-c\<close>\<close>
     (seqs [lit ''history'', ws1, lit ''-c''],
      ''Clearing command history''),
     \<comment> \<open>\<open>shred\\s+.*\<close>\<close>
     (seqs [lit ''shred'', ws1, any0],
      ''Securely deleting files'') ]"

definition medium_patterns :: "(regex \<times> string) list" where
  "medium_patterns =
   [ \<comment> \<open>\<open>rm\\s+-rf\\s+[^/\\s]\<close>\<close>
     (seqs [lit ''rm'', ws1, lit ''-rf'', ws1, Atom (NoneOf [Chr CHR ''/'', SpaceItem])],
      ''Recursive deletion''),
     \<comment> \<open>\<open>mv\\s+.*\\s+/dev/null\<close>\<close>
     (seqs [lit ''mv'', ws1, any0, ws1, lit ''/dev/null''],
      ''Moving files to null device''),
     \<comment> \<open>\<open>>\\s*/etc/\<close>\<close>
     (seqs [lit ''>'', ws0, lit ''/etc/''],
      ''Redirecting output to system config files''),
     \<comment> \<open>\<open>chmod\\s+[0-7]{3}\\s+.*\\.(sh|py|pl|rb)\<close>\<close>
     (seqs [lit ''chmod'', ws1,
            Atom (OneOf [Range CHR ''0'' CHR ''7'']), Atom (OneOf [Range CHR ''0'' CHR ''7'']),
            Atom (OneOf [Range CHR ''0'' CHR ''7'']), ws1, any0, lit ''.'',
            alts [lit ''sh'', lit ''py'', lit ''pl'', lit ''rb'']],
      ''Changing executable permissions''),
     \<comment> \<open>\<open>find\\s+.*-exec\\s+rm\<close>\<close>
     (seqs [lit ''find'', ws1, any0, lit ''-exec'', ws1, lit ''rm''],
      ''Finding and deleting files''),
     \<comment> \<open>\<open>tar\\s+.*--overwrite\<close>\<close>
     (seqs [lit ''tar'', ws1, any0, lit ''--overwrite''],
      ''Overwriting files during extraction''),
     \<comment> \<open>\<open>wget\\s+.*\\|\\s*(bash|sh)\<close>\<close>
     (seqs [lit ''wget'', ws1, any0, lit ''|'', ws0, alts [lit ''bash'', lit ''sh'']],
      ''Downloading and executing remote scripts''),
     \<comment> \<open>\<open>curl\\s+.*\\|\\s*(bash|sh)\<close>\<close>
     (seqs [lit ''curl'', ws1, any0, lit ''|'', ws0, alts [lit ''bash'', lit ''sh'']],
      ''Downloading and executing remote scripts'') ]"

definition low_patterns :: "(regex \<times> string) list" where
  "low_patterns =
   [ \<comment> \<open>\<open>rm\\s+[^-]\<close>\<close>
     (seqs [lit ''rm'', ws1, Atom (NoneOf [Chr CHR ''-''])],
      ''Deleting files''),
     \<comment> \<open>\<open>cp\\s+.*\\s+.*\\.(conf|cfg|ini)\<close>\<close>
     (seqs [lit ''cp'', ws1, any0, ws1, any0, lit ''.'',
            alts [lit ''conf'', lit ''cfg'', lit ''ini'']],
      ''Copying configuration files''),
     \<comment> \<open>\<open>mv\\s+.*\\.(conf|cfg|ini)\<close>\<close>
     (seqs [lit ''mv'', ws1, any0, lit ''.'', alts [lit ''conf'', lit ''cfg'', lit ''ini'']],
      ''Moving configuration files''),
     \<comment> \<open>\<open>nano\\s+/etc/\<close>\<close>
     (seqs [lit ''nano'', ws1, lit ''/etc/''],
      ''Editing system configuration''),
     \<comment> \<open>\<open>vi\\s+/etc/\<close>\<close>
     (seqs [lit ''vi'', ws1, lit ''/etc/''],
      ''Editing system configuration''),
     \<comment> \<open>\<open>chmod\\s+\\+x\<close>\<close>
     (seqs [lit ''chmod'', ws1, lit ''+x''],
      ''Making files executable''),
     \<comment> \<open>\<open>sudo\\s+[^rm]\<close>\<close>
     (seqs [lit ''sudo'', ws1, Atom (NoneOf [Chr CHR ''r'', Chr CHR ''m''])],
      ''Running command with sudo privileges'') ]"

definition safe_prefixes :: "string list" where
  "safe_prefixes =
   [''ls'', ''cat'', ''less'', ''more'', ''head'', ''tail'', ''grep'', ''find'', ''locate'',
    ''ps'', ''top'', ''htop'', ''df'', ''du'', ''free'', ''uptime'', ''whoami'', ''pwd'',
    ''date'', ''cal'', ''history'', ''man'', ''info'', ''which'', ''whereis'', ''type'',
    ''echo'', ''printf'', ''wc'', ''sort'', ''uniq'', ''cut'', ''awk'', ''sed'']"

definition dangerous_executables :: "string list" where
  "dangerous_executables =
   [''fdisk'', ''parted'', ''gparted'', ''mkfs'', ''fsck'', ''mount'', ''umount'',
    ''iptables'', ''ufw'', ''firewall-cmd'', ''systemctl'', ''service'']"

definition protected_paths :: "string list" where
  \<comment> \<open>a Python set: its iteration order is not fixed. No member but \<open>/\<close>, which the
     loop over it skips, is a prefix of another, so at most one of them passes the test of
     that loop and the order does not show in any result.\<close>
  "protected_paths =
   [''/'', ''/boot'', ''/etc'', ''/usr'', ''/var'', ''/sys'', ''/proc'',
    ''/dev/sda'', ''/dev/sdb'', ''/dev/nvme'', ''/dev/hd'']"

section \<open>Library functions the analyzer calls\<close>

datatype error = ValueError | TypeError

subsection \<open>\<open>shlex.split\<close>\<close>

text \<open>
  \<open>shlex.split(s)\<close> runs the POSIX-mode lexer with \<open>whitespace_split\<close> set and no
  comment characters, and collects the tokens of \<open>read_token\<close> until the input ends.
  The lexer's \<open>state\<close> is a character in Python: a blank between tokens, \<open>a\<close> inside a
  word, the opening quote inside a quotation, the backslash after an escape.
  It raises \<open>ValueError\<close> when the input ends inside a quotation or right after an
  escape.
\<close>

datatype lex_state = Blank | Word | Quoting char | Escaping

definition shlex_whitespace :: "char list" where
  "shlex_whitespace = [CHR '' '', CHR 0x09, CHR 0x0D, CHR 0x0A]"

definition shlex_quotes :: "char list" where
  "shlex_quotes = [CHR 0x27, CHR 0x22]"

definition shlex_escape :: char where
  "shlex_escape = CHR 0x5C"

definition shlex_escapedquotes :: "char list" where
  "shlex_escapedquotes = [CHR 0x22]"

definition emit :: "string \<Rightarrow> error + string list \<Rightarrow> error + string list" where
  \<comment> \<open>a token is returned and the next call of \<open>read_token\<close> goes on with the input\<close>
  "emit token r = (case r of Inl e \<Rightarrow> Inl e | Inr tokens \<Rightarrow> Inr (token # tokens))"

fun read_tokens ::
  "lex_state \<Rightarrow> lex_state \<Rightarrow> string \<Rightarrow> bool \<Rightarrow> string \<Rightarrow> error + string list" where
  "read_tokens state escapedstate token quoted [] =
     (case state of
        Quoting q \<Rightarrow> Inl ValueError
      | Escaping \<Rightarrow> Inl ValueError
      | _ \<Rightarrow> Inr (if token \<noteq> [] \<or> quoted then [token] else []))"
| "read_tokens state escapedstate token quoted (nextchar # rest) =
     (case state of
        Blank \<Rightarrow>
          if nextchar \<in> set shlex_whitespace then
            (if token \<noteq> [] \<or> quoted then emit token (read_tokens Blank Blank [] False rest)
             else read_tokens Blank escapedstate token quoted rest)
          else if nextchar = shlex_escape then read_tokens Escaping Word token quoted rest
          else if nextchar \<in> set shlex_quotes then
            read_tokens (Quoting nextchar) escapedstate token quoted rest
          else read_tokens Word escapedstate [nextchar] quoted rest
      | Quoting q \<Rightarrow>
          if nextchar = q then read_tokens Word escapedstate token True rest
          else if nextchar = shlex_escape \<and> q \<in> set shlex_escapedquotes then
            read_tokens Escaping (Quoting q) token True rest
          else read_tokens (Quoting q) escapedstate (token @ [nextchar]) True rest
      | Escaping \<Rightarrow>
          (let token =
             (if (\<exists>q \<in> set shlex_quotes. escapedstate = Quoting q) \<and> nextchar \<noteq> shlex_escape
                 \<and> escapedstate \<noteq> Quoting nextchar
              then token @ [shlex_escape] else token)
           in read_tokens escapedstate escapedstate (token @ [nextchar]) quoted rest)
      | Word \<Rightarrow>
          if nextchar \<in> set shlex_whitespace then
            (if token \<noteq> [] \<or> quoted then emit token (read_tokens Blank Blank [] False rest)
             else read_tokens Blank escapedstate token quoted rest)
          else if nextchar \<in> set shlex_quotes then
            read_tokens (Quoting nextchar) escapedstate token quoted rest
          else if nextchar = shlex_escape then read_tokens Escaping Word token quoted rest
          else read_tokens Word escapedstate (token @ [nextchar]) quoted rest)"

definition shlex_split :: "string \<Rightarrow> error + string list" where
  "shlex_split s = read_tokens Blank Blank [] False s"

subsection \<open>\<open>str(Path(p))\<close>\<close>

definition path_str :: "string \<Rightarrow> string" where
  \<comment> \<open>a POSIX path keeps its root (one slash, or two when the path starts with exactly
     two) and its components other than the empty one and \<open>.\<close>; the empty path is \<open>.\<close>\<close>
  "path_str p =
     (let root = (if take 1 p \<noteq> ''/'' then []
                  else if take 1 (drop 1 p) \<noteq> ''/'' \<or> take 1 (drop 2 p) = ''/'' then ''/''
                  else ''//'');
          tail = filter (\<lambda>x. x \<noteq> [] \<and> x \<noteq> ''.'') (str_split CHR ''/'' (drop (length root) p));
          s = root @ str_join ''/'' tail
      in if s = [] then ''.'' else s)"

section \<open>The risk verdict\<close>

datatype DangerLevel = SAFE | LOW | MEDIUM | HIGH | CRITICAL

fun level_value :: "DangerLevel \<Rightarrow> nat" where
  \<comment> \<open>\<open>DangerLevel.value\<close>\<close>
  "level_value SAFE = 0"
| "level_value LOW = 1"
| "level_value MEDIUM = 2"
| "level_value HIGH = 3"
| "level_value CRITICAL = 4"

record CommandRisk =
  level :: DangerLevel
  reasons :: "string list"
  suggestions :: "string list"

definition is_dangerous :: "CommandRisk \<Rightarrow> bool" where
  "is_dangerous risk = (level_value (level risk) \<ge> level_value MEDIUM)"

definition requires_confirmation :: "CommandRisk \<Rightarrow> bool" where
  "requires_confirmation risk = (level_value (level risk) \<ge> level_value LOW)"

text \<open>
  The optional context dictionary. The analyzer reads two keys of it with
  \<open>context.get("cwd", "")\<close> and \<open>context.get("files", [])\<close>, so a missing key is the
  field at its default. The test \<open>if context:\<close> skips the context pass for \<open>None\<close> and
  for the empty dictionary, for which the pass would add nothing either.
\<close>

record context_dict =
  cwd :: string
  files :: "string list"

section \<open>The analyzer\<close>

text \<open>
  Each pass keeps three local variables: the reasons, the suggestions and the highest level
  so far. They are held in a \<open>CommandRisk\<close>. One finding runs
  \<open>reasons.append(reason)\<close>, raises the level if the finding's is higher, and runs
  \<open>suggestions.append(suggestion)\<close>.
\<close>

definition raise_level :: "DangerLevel \<Rightarrow> DangerLevel \<Rightarrow> DangerLevel" where
  \<comment> \<open>\<open>if new.value > level.value: level = new\<close>\<close>
  "raise_level new lvl = (if level_value new > level_value lvl then new else lvl)"

definition note_finding :: "DangerLevel \<Rightarrow> string \<Rightarrow> string \<Rightarrow> CommandRisk \<Rightarrow> CommandRisk" where
  "note_finding lvl reason suggestion acc =
     \<lparr> level = raise_level lvl (level acc),
       reasons = reasons acc @ [reason],
       suggestions = suggestions acc @ [suggestion] \<rparr>"

definition merge_risk :: "CommandRisk \<Rightarrow> CommandRisk \<Rightarrow> CommandRisk" where
  \<comment> \<open>\<open>reasons.extend(r.reasons); suggestions.extend(r.suggestions)\<close> and the level raised\<close>
  "merge_risk r acc =
     \<lparr> level = raise_level (level r) (level acc),
       reasons = reasons acc @ reasons r,
       suggestions = suggestions acc @ suggestions r \<rparr>"

definition no_risk :: CommandRisk where
  "no_risk = \<lparr> level = SAFE, reasons = [], suggestions = [] \<rparr>"

fun critical_loop :: "(regex \<times> string) list \<Rightarrow> string \<Rightarrow> CommandRisk option" where
  \<comment> \<open>the loop over \<open>critical_patterns\<close>, which returns at the first match\<close>
  "critical_loop [] command_lower = None"
| "critical_loop ((pattern, reason) # rest) command_lower =
     (if re_search pattern command_lower
      then Some \<lparr> level = CRITICAL, reasons = [reason],
                  suggestions = [''This command can cause irreversible system damage'',
                                 ''Consider alternatives or seek expert help''] \<rparr>
      else critical_loop rest command_lower)"

fun pattern_loop ::
  "DangerLevel \<Rightarrow> string \<Rightarrow> (regex \<times> string) list \<Rightarrow> string \<Rightarrow> CommandRisk \<Rightarrow> CommandRisk" where
  \<comment> \<open>the loops over the high, medium and low patterns\<close>
  "pattern_loop lvl suggestion [] command_lower acc = acc"
| "pattern_loop lvl suggestion ((pattern, reason) # rest) command_lower acc =
     pattern_loop lvl suggestion rest command_lower
       (if re_search pattern command_lower then note_finding lvl reason suggestion acc else acc)"

fun protected_loop :: "string list \<Rightarrow> string \<Rightarrow> CommandRisk \<Rightarrow> CommandRisk" where
  \<comment> \<open>the loop over \<open>protected_paths\<close> in \<open>_analyze_context\<close>\<close>
  "protected_loop [] cwd_path acc = acc"
| "protected_loop (protected # rest) cwd_path acc =
     protected_loop rest cwd_path
       (if startswith cwd_path protected \<and> protected \<noteq> ''/''
        then note_finding MEDIUM (''Operating in protected directory: '' @ protected)
               ''Be extra careful when modifying system directories'' acc
        else acc)"

definition analyze_context :: "string \<Rightarrow> context_dict \<Rightarrow> CommandRisk" where
  "analyze_context command ctx =
     (let acc = no_risk;
          acc = (if cwd ctx \<noteq> [] then protected_loop protected_paths (path_str (cwd ctx)) acc
                 else acc);
          acc = (if contains ''rm'' (lower command) \<or> contains ''mv'' (lower command) then
                   (let important_files =
                          filter (\<lambda>f. startswith f ''.''
                                      \<or> list_ex (endswith f)
                                           [''.conf'', ''.cfg'', ''.ini'', ''.yaml'', ''.json''])
                                 (files ctx)
                    in if important_files \<noteq> [] then
                         note_finding LOW ''Command may affect configuration files''
                           ''Backup important files before modification'' acc
                       else acc)
                 else acc)
      in acc)"

definition analyze_structure :: "string \<Rightarrow> error + CommandRisk" where
  "analyze_structure command =
     (let acc = no_risk;
          acc = (if list_ex (\<lambda>op. contains op command) [''&&'', ''||'', '';''] then
                   note_finding LOW ''Command contains multiple operations''
                     ''Review each operation in the chain'' acc
                 else acc);
          \<comment> \<open>\<open>>\\s*(/etc|/usr|/var)\<close>\<close>
          acc = (if re_search (seqs [lit ''>'', ws0, alts [lit ''/etc'', lit ''/usr'', lit ''/var'']])
                      command then
                   note_finding MEDIUM ''Output redirection to system directories''
                     ''Ensure you have proper permissions and backup files'' acc
                 else acc);
          \<comment> \<open>\<open>rm\\s+.*\\*\<close> and \<open>chmod\\s+.*\\*\<close>\<close>
          acc = (if re_search (seqs [lit ''rm'', ws1, any0, lit ''*'']) command
                    \<or> re_search (seqs [lit ''chmod'', ws1, any0, lit ''*'']) command then
                   note_finding MEDIUM ''Wildcard usage in potentially destructive command''
                     ''Be specific about target files instead of using wildcards'' acc
                 else acc);
          \<comment> \<open>\<open>\\|\\s*(bash|sh|zsh|fish)\<close>\<close>
          acc = (if re_search (seqs [lit ''|'', ws0,
                                     alts [lit ''bash'', lit ''sh'', lit ''zsh'', lit ''fish'']])
                      command then
                   note_finding HIGH ''Piping output to shell execution''
                     ''Verify the source and content before execution'' acc
                 else acc)
      in case shlex_split command of
           Inr parts \<Rightarrow>
             (case parts of
                [] \<Rightarrow> Inr acc
              | first # _ \<Rightarrow>
                  (let executable = last (str_split CHR ''/'' first)
                   in if executable \<in> set dangerous_executables then
                        Inr (note_finding MEDIUM
                               (''Using potentially dangerous executable: '' @ executable)
                               ''Ensure you understand the implications of this command'' acc)
                      else Inr acc))
         | Inl ValueError \<Rightarrow>
             Inr (note_finding LOW ''Command has malformed syntax''
                    ''Check command syntax before execution'' acc)
         | Inl e \<Rightarrow> Inl e)"

text \<open>
  The last line of \<open>analyze_command\<close> returns \<open>list(set(suggestions))\<close>: one copy of
  each suggestion, in an order Python does not fix. \<open>remdups\<close> is one such list; no
  theorem below depends on its order.
\<close>

definition analyze_command :: "string \<Rightarrow> context_dict option \<Rightarrow> error + CommandRisk" where
  "analyze_command command context =
     (if strip command = [] then Inr \<lparr> level = SAFE, reasons = [], suggestions = [] \<rparr>
      else
        (let command_lower = strip (lower command)
         in case critical_loop critical_patterns command_lower of
              Some risk \<Rightarrow> Inr risk
            | None \<Rightarrow>
               (let acc = no_risk;
                    acc = pattern_loop HIGH
                            ''Double-check the target path and consider backing up first''
                            high_patterns command_lower acc;
                    acc = pattern_loop MEDIUM
                            ''Verify the operation is intended and paths are correct''
                            medium_patterns command_lower acc;
                    acc = pattern_loop LOW ''Review the operation carefully''
                            low_patterns command_lower acc;
                    acc = (case context of
                             None \<Rightarrow> acc
                           | Some ctx \<Rightarrow> merge_risk (analyze_context command ctx) acc)
                in case analyze_structure command of
                     Inl e \<Rightarrow> Inl e
                   | Inr structure_risk \<Rightarrow>
                      (let acc = merge_risk structure_risk acc;
                           final = \<lparr> level = level acc, reasons = reasons acc,
                                     suggestions = remdups (suggestions acc) \<rparr>
                       in if level acc = SAFE then
                            (case shlex_split command of
                               Inr parts \<Rightarrow>
                                 (case parts of
                                    [] \<Rightarrow> Inr final
                                  | first # _ \<Rightarrow>
                                      if first \<in> set safe_prefixes then
                                        Inr \<lparr> level = SAFE,
                                              reasons = [''Safe read-only operation''],
                                              suggestions = [] \<rparr>
                                      else Inr final)
                             | Inl ValueError \<Rightarrow> Inr final
                             | Inl e \<Rightarrow> Inl e)
                          else Inr final))))"

definition get_safety_tips :: "string \<Rightarrow> string list" where
  "get_safety_tips command =
     (if contains ''rm'' (lower command) then
        [''Use 'ls' first to see what files will be affected'',
         ''Consider using 'trash' command instead of 'rm' for recoverable deletion'',
         ''Always double-check paths before deletion'']
      else [])
     @ (if contains ''sudo'' (lower command) then
          [''Understand why sudo privileges are needed'',
           ''Verify the command is from a trusted source'',
           ''Consider if there's a non-privileged alternative'']
        else [])
     @ (if list_ex (\<lambda>op. contains op command) [''>'', ''>>''] then
          [''Backup the target file before overwriting'',
           ''Use '>>' for appending instead of '>' for overwriting when appropriate'']
        else [])"

section \<open>The confirmation protocol of the shell session\<close>

text \<open>
  \<open>ShellSession._handle_natural_language\<close> and \<open>ShellSession._handle_direct_command\<close>
  talk to the user and run the command. A run of either is modelled by the sequence of
  what it does: console messages (without their emoji), confirmation prompts with their
  default, and the execution of the command. The user is the function that gives the
  answer to the k-th prompt of the run; the translation of the language model and the
  context dictionary of the session are inputs. Both handlers return \<open>True\<close> on every
  path, which is left out.
\<close>

record ExecutionConfig =
  always_confirm :: bool
  safe_mode :: bool

text \<open>
  The response of the translation; its \<open>confidence\<close>, which neither handler reads, is
  left out.
\<close>

record LLMResponse =
  rsp_command :: string
  rsp_explanation :: "string option"
  rsp_error :: "string option"

datatype event =
    Preview                 \<comment> \<open>\<open>display_command_preview\<close>\<close>
  | Print string            \<comment> \<open>\<open>console.print\<close>\<close>
  | Ask string bool         \<comment> \<open>\<open>Confirm.ask(prompt, default=...)\<close>\<close>
  | Tips "string list"      \<comment> \<open>the safety tips, when there are any\<close>
  | Execute string          \<comment> \<open>\<open>execute_command\<close>\<close>
  | Display                 \<comment> \<open>\<open>display_output\<close>\<close>

definition handle_natural_language ::
  "ExecutionConfig \<Rightarrow> context_dict option \<Rightarrow> (nat \<Rightarrow> bool) \<Rightarrow> LLMResponse
     \<Rightarrow> error + event list" where
  "handle_natural_language config context user response =
     (if rsp_error response \<noteq> None \<and> rsp_error response \<noteq> Some [] then
        Inr [Print (''Translation error: '' @ the (rsp_error response))]
      else if strip (rsp_command response) = [] then Inr [Print ''No command generated'']
      else
        (case analyze_command (rsp_command response) context of
           Inl e \<Rightarrow> Inl e
         | Inr risk \<Rightarrow>
            (let tips = get_safety_tips (rsp_command response);
                 proceed = (\<lambda>trace. Inr (trace @ (if tips \<noteq> [] then [Tips tips] else [])
                                             @ [Execute (rsp_command response), Display]));
                 trace = [Preview]
             in if always_confirm config \<or> requires_confirmation risk then
                  (if level risk = CRITICAL then
                     (let trace = trace
                            @ [Print ''CRITICAL WARNING: This command is extremely dangerous!'',
                               Print ''This command could cause irreversible system damage!'',
                               Ask ''Type 'I understand the risks' to continue'' False]
                      in if \<not> user 0 then Inr (trace @ [Print ''Command cancelled for safety.''])
                         else
                           (let trace = trace
                                  @ [Ask ''Are you absolutely certain you want to proceed?'' False]
                            in if \<not> user 1 then Inr (trace @ [Print ''Command cancelled.''])
                               else proceed trace))
                   else if level risk = HIGH then
                     (let trace = trace
                            @ [Print ''HIGH RISK: This command could cause significant damage!'',
                               Ask ''Are you sure you want to execute this high-risk command?''
                                 False]
                      in if \<not> user 0 then Inr (trace @ [Print ''Command cancelled.''])
                         else proceed trace)
                   else if level risk = MEDIUM then
                     (let trace = trace
                            @ [Print ''MODERATE RISK: This command requires careful consideration.'',
                               Ask ''Proceed with this potentially risky command?'' True]
                      in if \<not> user 0 then Inr (trace @ [Print ''Command cancelled.''])
                         else proceed trace)
                   else if level risk = LOW then
                     (let trace = trace @ [Ask ''Execute this command?'' True]
                      in if \<not> user 0 then Inr (trace @ [Print ''Command cancelled.''])
                         else proceed trace)
                   else
                     (if always_confirm config then
                        (let trace = trace @ [Ask ''Execute this command?'' True]
                         in if \<not> user 0 then Inr (trace @ [Print ''Command cancelled.''])
                            else proceed trace)
                      else proceed trace))
                else proceed trace)))"

definition enum_ge :: "DangerLevel \<Rightarrow> DangerLevel \<Rightarrow> error + bool" where
  \<comment> \<open>\<open>a >= b\<close> on members of \<open>DangerLevel\<close>. The class derives from \<open>Enum\<close>, which
     defines no ordering, so Python raises \<open>TypeError\<close>; the analyzer itself compares
     \<open>a.value >= b.value\<close>.\<close>
  "enum_ge a b = Inl TypeError"

fun level_title :: "DangerLevel \<Rightarrow> string" where
  \<comment> \<open>\<open>level.name.title()\<close>\<close>
  "level_title SAFE = ''Safe''"
| "level_title LOW = ''Low''"
| "level_title MEDIUM = ''Medium''"
| "level_title HIGH = ''High''"
| "level_title CRITICAL = ''Critical''"

definition handle_direct_command ::
  "ExecutionConfig \<Rightarrow> context_dict option \<Rightarrow> (nat \<Rightarrow> bool) \<Rightarrow> string
     \<Rightarrow> error + event list" where
  "handle_direct_command config context user command =
     (case analyze_command command context of
        Inl e \<Rightarrow> Inl e
      | Inr risk \<Rightarrow>
         (let proceed = (\<lambda>trace. Inr (trace @ [Execute command, Display]))
          in if safe_mode config \<and> requires_confirmation risk then
               (case enum_ge (level risk) MEDIUM of
                  Inl e \<Rightarrow> Inl e
                | Inr shown \<Rightarrow>
                   (let trace =
                          (if shown then
                             [Print (level_title (level risk) @ '' Risk Command Detected!'')]
                             @ (if reasons risk \<noteq> [] then
                                  Print ''Safety Concerns:'' # map Print (reasons risk)
                                else [])
                             @ (if suggestions risk \<noteq> [] then
                                  Print ''Suggestions:'' # map Print (suggestions risk)
                                else [])
                             @ [Print []]
                           else [])
                    in if level risk = CRITICAL then
                         (let trace = trace
                                @ [Print ''CRITICAL WARNING: This command is extremely dangerous!'',
                                   Ask ''Are you absolutely certain you want to proceed?'' False]
                          in if \<not> user 0 then
                               Inr (trace @ [Print ''Command cancelled for safety.''])
                             else proceed trace)
                       else if level risk = HIGH then
                         (let trace = trace
                                @ [Print ''HIGH RISK: This command could cause significant damage!'',
                                   Ask ''Are you sure you want to execute this high-risk command?''
                                     False]
                          in if \<not> user 0 then Inr (trace @ [Print ''Command cancelled.''])
                             else proceed trace)
                       else if level risk = MEDIUM then
                         (let trace = trace
                                @ [Ask ''Proceed with this potentially risky command?'' False]
                          in if \<not> user 0 then Inr (trace @ [Print ''Command cancelled.''])
                             else proceed trace)
                       else
                         (let trace = trace
                                @ [Ask ''Are you sure you want to execute this command?'' True]
                          in if \<not> user 0 then Inr (trace @ [Print ''Command cancelled.''])
                             else proceed trace)))
             else proceed []))"

fun prompts :: "event list \<Rightarrow> (string \<times> bool) list" where
  \<comment> \<open>the confirmation prompts of a run, in order, each with its default\<close>
  "prompts [] = []"
| "prompts (Ask prompt dflt # rest) = (prompt, dflt) # prompts rest"
| "prompts (_ # rest) = prompts rest"

fun executed :: "event list \<Rightarrow> bool" where
  \<comment> \<open>whether the run handed a command to \<open>execute_command\<close>\<close>
  "executed [] = False"
| "executed (Execute c # rest) = True"
| "executed (_ # rest) = executed rest"

definition accept_all :: "nat \<Rightarrow> bool" where
  \<comment> \<open>the user who accepts at every prompt\<close>
  "accept_all k = True"

definition decline_all :: "nat \<Rightarrow> bool" where
  \<comment> \<open>the user who declines at every prompt\<close>
  "decline_all k = False"

section \<open>Findings, pass by pass\<close>

text \<open>
  The specification speaks of the findings of each pass evaluated on its own: a finding is
  a level with a reason. The definitions of this section follow the specification's words;
  the theorems compare them with the analyzer above.
\<close>

type_synonym finding = "DangerLevel \<times> string"

definition tier_findings :: "DangerLevel \<Rightarrow> (regex \<times> string) list \<Rightarrow> string \<Rightarrow> finding list" where
  \<comment> \<open>every pattern of the tier that matches the normalized command gives its reason\<close>
  "tier_findings lvl patterns command_lower =
     map (\<lambda>(pattern, reason). (lvl, reason))
         (filter (\<lambda>(pattern, reason). re_search pattern command_lower) patterns)"

definition critical_findings :: "string \<Rightarrow> finding list" where
  "critical_findings command = tier_findings CRITICAL critical_patterns (strip (lower command))"

definition lower_tier_findings :: "string \<Rightarrow> finding list" where
  "lower_tier_findings command =
     tier_findings HIGH high_patterns (strip (lower command))
     @ tier_findings MEDIUM medium_patterns (strip (lower command))
     @ tier_findings LOW low_patterns (strip (lower command))"

definition context_findings :: "string \<Rightarrow> context_dict option \<Rightarrow> finding list" where
  \<comment> \<open>the working directory under a protected path other than the root; a deletion or a
     move while dotfiles or configuration files are listed; nothing without a context\<close>
  "context_findings command context =
     (case context of
        None \<Rightarrow> []
      | Some ctx \<Rightarrow>
          (if cwd ctx = [] then []
           else map (\<lambda>protected. (MEDIUM, ''Operating in protected directory: '' @ protected))
                    (filter (\<lambda>protected. startswith (path_str (cwd ctx)) protected
                                          \<and> protected \<noteq> ''/'')
                            protected_paths))
          @ (if (contains ''rm'' (lower command) \<or> contains ''mv'' (lower command))
                \<and> list_ex (\<lambda>f. startswith f ''.''
                                  \<or> list_ex (endswith f)
                                       [''.conf'', ''.cfg'', ''.ini'', ''.yaml'', ''.json''])
                           (files ctx)
             then [(LOW, ''Command may affect configuration files'')] else []))"

definition structure_findings :: "string \<Rightarrow> finding list" where
  \<comment> \<open>chaining, redirection to a system directory, destructive wildcards, a pipe into a
     shell, and then a flagged executable or, when the command cannot be tokenized,
     malformed syntax\<close>
  "structure_findings command =
     (if list_ex (\<lambda>op. contains op command) [''&&'', ''||'', '';'']
      then [(LOW, ''Command contains multiple operations'')] else [])
     @ (if re_search (seqs [lit ''>'', ws0, alts [lit ''/etc'', lit ''/usr'', lit ''/var'']]) command
        then [(MEDIUM, ''Output redirection to system directories'')] else [])
     @ (if re_search (seqs [lit ''rm'', ws1, any0, lit ''*'']) command
           \<or> re_search (seqs [lit ''chmod'', ws1, any0, lit ''*'']) command
        then [(MEDIUM, ''Wildcard usage in potentially destructive command'')] else [])
     @ (if re_search (seqs [lit ''|'', ws0,
                            alts [lit ''bash'', lit ''sh'', lit ''zsh'', lit ''fish'']]) command
        then [(HIGH, ''Piping output to shell execution'')] else [])
     @ (case shlex_split command of
          Inl e \<Rightarrow> [(LOW, ''Command has malformed syntax'')]
        | Inr [] \<Rightarrow> []
        | Inr (first # rest) \<Rightarrow>
            (if last (str_split CHR ''/'' first) \<in> set dangerous_executables
             then [(MEDIUM, ''Using potentially dangerous executable: ''
                            @ last (str_split CHR ''/'' first))]
             else []))"

definition all_findings :: "string \<Rightarrow> context_dict option \<Rightarrow> finding list" where
  "all_findings command context =
     critical_findings command @ lower_tier_findings command
     @ context_findings command context @ structure_findings command"

definition max_value :: "finding list \<Rightarrow> nat" where
  \<comment> \<open>the value of the highest level among the findings; that of \<open>SAFE\<close> when there are none\<close>
  "max_value fs = Max (insert (level_value SAFE) (set (map (\<lambda>f. level_value (fst f)) fs)))"

definition leading_token_safe :: "string \<Rightarrow> bool" where
  \<comment> \<open>the command tokenizes and its first token is a safe prefix\<close>
  "leading_token_safe command =
     (case shlex_split command of
        Inl e \<Rightarrow> False
      | Inr [] \<Rightarrow> False
      | Inr (first # rest) \<Rightarrow> first \<in> set safe_prefixes)"

section \<open>Levels and their maximum\<close>

lemma level_value_raise_level:
  "level_value (raise_level a b) = max (level_value a) (level_value b)"
  by (simp add: raise_level_def)

lemma max_value_Nil: "max_value [] = 0"
  by (simp add: max_value_def)

lemma max_value_Cons: "max_value (f # fs) = max (level_value (fst f)) (max_value fs)"
proof -
  let ?S = "insert (level_value SAFE) (set (map (\<lambda>f. level_value (fst f)) fs))"
  have eq: "insert (level_value SAFE) (set (map (\<lambda>f. level_value (fst f)) (f # fs)))
            = insert (level_value (fst f)) ?S"
    by auto
  have "Max (insert (level_value (fst f)) ?S) = max (level_value (fst f)) (Max ?S)"
    by (rule Max_insert) auto
  then show ?thesis
    unfolding max_value_def eq .
qed

lemma max_value_append: "max_value (xs @ ys) = max (max_value xs) (max_value ys)"
  by (induction xs) (simp_all add: max_value_Nil max_value_Cons)

lemma max_value_zero_iff:
  "(\<forall>f \<in> set fs. fst f \<noteq> SAFE) \<Longrightarrow> max_value fs = 0 \<longleftrightarrow> fs = []"
proof (induction fs)
  case Nil
  show ?case by (simp add: max_value_Nil)
next
  case (Cons f fs)
  then have "fst f \<noteq> SAFE" by simp
  then have "level_value (fst f) \<noteq> 0" by (cases "fst f") simp_all
  then show ?case by (simp add: max_value_Cons)
qed

section \<open>Only \<open>ValueError\<close> comes out of the tokenizer\<close>

lemma emit_error: "emit t r = Inl e \<longleftrightarrow> r = Inl e"
  by (simp add: emit_def split: sum.splits)

lemma read_tokens_error:
  "read_tokens st es tok q s = Inl e \<Longrightarrow> e = ValueError"
  by (induction st es tok q s rule: read_tokens.induct)
     (auto simp: emit_error Let_def split: lex_state.splits if_splits)

lemma shlex_split_error: "shlex_split s = Inl e \<Longrightarrow> e = ValueError"
  unfolding shlex_split_def by (rule read_tokens_error)

section \<open>The loops collect the findings of their pass\<close>

lemma tier_findings_Nil: "tier_findings lvl [] s = []"
  by (simp add: tier_findings_def)

lemma tier_findings_Cons:
  "tier_findings lvl ((p, reason) # ps) s =
     (if re_search p s then (lvl, reason) # tier_findings lvl ps s else tier_findings lvl ps s)"
  by (simp add: tier_findings_def)

lemma max_value_tier:
  "max_value (tier_findings lvl ps s) = (if tier_findings lvl ps s = [] then 0 else level_value lvl)"
  by (induction ps) (auto simp: tier_findings_Nil tier_findings_Cons max_value_Nil max_value_Cons)

lemma pattern_loop_reasons:
  "reasons (pattern_loop lvl sg ps s acc) = reasons acc @ map snd (tier_findings lvl ps s)"
  by (induction ps arbitrary: acc)
     (auto simp: tier_findings_Nil tier_findings_Cons note_finding_def)

lemma pattern_loop_level:
  "level_value (level (pattern_loop lvl sg ps s acc))
     = max (level_value (level acc)) (max_value (tier_findings lvl ps s))"
  by (induction ps arbitrary: acc)
     (auto simp: tier_findings_Nil tier_findings_Cons note_finding_def max_value_Nil
                 max_value_Cons level_value_raise_level)

lemma critical_loop_None:
  "critical_loop ps s = None \<longleftrightarrow> tier_findings CRITICAL ps s = []"
  by (induction ps s rule: critical_loop.induct)
     (simp_all add: tier_findings_Nil tier_findings_Cons)

lemma protected_loop_reasons:
  "reasons (protected_loop ps p acc)
     = reasons acc @ map (\<lambda>protected. ''Operating in protected directory: '' @ protected)
                        (filter (\<lambda>protected. startswith p protected \<and> protected \<noteq> ''/'') ps)"
  by (induction ps arbitrary: acc) (auto simp: note_finding_def)

lemma protected_loop_level:
  "level_value (level (protected_loop ps p acc))
     = max (level_value (level acc))
           (max_value (map (\<lambda>protected. (MEDIUM, ''Operating in protected directory: '' @ protected))
                        (filter (\<lambda>protected. startswith p protected \<and> protected \<noteq> ''/'') ps)))"
  by (induction ps arbitrary: acc)
     (auto simp: note_finding_def max_value_Nil max_value_Cons level_value_raise_level)

text \<open>
  At most one protected path passes the test of the loop in \<open>_analyze_context\<close>, so the
  order in which Python iterates the set does not show in the context findings.
\<close>

lemma startswith_both:
  "startswith p a \<Longrightarrow> startswith p b \<Longrightarrow> length a \<le> length b \<Longrightarrow> startswith b a"
proof (induction p a arbitrary: b rule: startswith.induct)
  case (1 s)
  then show ?case by simp
next
  case (2 p ps)
  then show ?case by simp
next
  case (3 c cs p ps)
  then show ?case by (cases b) auto
qed

lemma protected_paths_no_prefix:
  "\<forall>a \<in> set protected_paths. \<forall>b \<in> set protected_paths.
     a \<noteq> ''/'' \<and> b \<noteq> ''/'' \<and> startswith b a \<longrightarrow> a = b"
  by code_simp

lemma protected_paths_one_match:
  assumes "a \<in> set protected_paths" and "b \<in> set protected_paths"
    and "startswith p a \<and> a \<noteq> ''/''" and "startswith p b \<and> b \<noteq> ''/''"
  shows "a = b"
proof (cases "length a \<le> length b")
  case True
  with assms have "startswith b a" using startswith_both by blast
  with assms protected_paths_no_prefix show ?thesis by blast
next
  case False
  then have "length b \<le> length a" by simp
  with assms have "startswith a b" using startswith_both by blast
  with assms protected_paths_no_prefix show ?thesis by blast
qed

lemma analyze_context_reasons:
  "reasons (analyze_context command ctx) = map snd (context_findings command (Some ctx))"
  by (simp add: analyze_context_def context_findings_def Let_def no_risk_def
                protected_loop_reasons note_finding_def comp_def list_ex_iff filter_empty_conv)

lemma analyze_context_level:
  "level_value (level (analyze_context command ctx))
     = max_value (context_findings command (Some ctx))"
  by (simp add: analyze_context_def context_findings_def Let_def no_risk_def
                protected_loop_level note_finding_def list_ex_iff filter_empty_conv
                max_value_Nil max_value_Cons max_value_append level_value_raise_level
                max.commute)

lemma pattern_loop_suggestions:
  "length (suggestions (pattern_loop lvl sg ps s acc))
     = length (suggestions acc) + length (tier_findings lvl ps s)"
  by (induction ps arbitrary: acc)
     (auto simp: tier_findings_Nil tier_findings_Cons note_finding_def)

lemma protected_loop_suggestions:
  "length (suggestions (protected_loop ps p acc))
     = length (suggestions acc)
       + length (filter (\<lambda>protected. startswith p protected \<and> protected \<noteq> ''/'') ps)"
  by (induction ps arbitrary: acc) (auto simp: note_finding_def)

lemma analyze_context_suggestions:
  "length (suggestions (analyze_context command ctx))
     = length (context_findings command (Some ctx))"
  by (simp add: analyze_context_def context_findings_def Let_def no_risk_def
                protected_loop_suggestions note_finding_def list_ex_iff filter_empty_conv)

lemma note_if_suggestions:
  "length (suggestions (if b then note_finding l r s acc else acc))
     = length (suggestions acc) + length (if b then [(l, r)] else [])"
  by (simp add: note_finding_def)

lemma note_suggestions:
  "length (suggestions (note_finding l r s acc)) = Suc (length (suggestions acc))"
  by (simp add: note_finding_def)

lemma note_if_reasons:
  "reasons (if b then note_finding l r s acc else acc)
     = reasons acc @ map snd (if b then [(l, r)] else [])"
  by (simp add: note_finding_def)

lemma note_if_level:
  "level_value (level (if b then note_finding l r s acc else acc))
     = max (level_value (level acc)) (max_value (if b then [(l, r)] else []))"
  by (simp add: note_finding_def level_value_raise_level max_value_Nil max_value_Cons max.commute)

lemma note_reasons: "reasons (note_finding l r s acc) = reasons acc @ [r]"
  by (simp add: note_finding_def)

lemma note_level:
  "level_value (level (note_finding l r s acc)) = max (level_value (level acc)) (level_value l)"
  by (simp add: note_finding_def level_value_raise_level max.commute)

lemma analyze_structure_ok:
  "\<exists>r. analyze_structure command = Inr r
       \<and> reasons r = map snd (structure_findings command)
       \<and> level_value (level r) = max_value (structure_findings command)
       \<and> length (suggestions r) = length (structure_findings command)"
proof (cases "shlex_split command")
  case (Inl e)
  then have e: "shlex_split command = Inl ValueError" using shlex_split_error by blast
  show ?thesis
    unfolding analyze_structure_def structure_findings_def Let_def e
    by (simp add: note_if_reasons note_if_level note_if_suggestions note_reasons note_level
                  note_suggestions no_risk_def
                  max_value_Nil max_value_Cons max_value_append max.assoc
             split del: if_split)
next
  case (Inr parts)
  show ?thesis
  proof (cases parts)
    case Nil
    show ?thesis
      unfolding analyze_structure_def structure_findings_def Let_def Inr Nil
      by (simp add: note_if_reasons note_if_level note_if_suggestions note_reasons note_level
                  note_suggestions no_risk_def
                    max_value_Nil max_value_Cons max_value_append max.assoc
               split del: if_split)
  next
    case (Cons first rest)
    show ?thesis
    proof (cases "last (str_split CHR ''/'' first) \<in> set dangerous_executables")
      case True
      show ?thesis
        unfolding analyze_structure_def structure_findings_def Let_def Inr Cons
        using True
        by (simp add: note_if_reasons note_if_level note_if_suggestions note_reasons note_level
                  note_suggestions no_risk_def
                    max_value_Nil max_value_Cons max_value_append max.assoc
               split del: if_split)
    next
      case False
      show ?thesis
        unfolding analyze_structure_def structure_findings_def Let_def Inr Cons
        using False
        by (simp add: note_if_reasons note_if_level note_if_suggestions note_reasons note_level
                  note_suggestions no_risk_def
                    max_value_Nil max_value_Cons max_value_append max.assoc
               split del: if_split)
    qed
  qed
qed

section \<open>The three ways \<open>analyze_command\<close> returns\<close>

lemma analyze_command_blank:
  "strip command = [] \<Longrightarrow>
     analyze_command command context = Inr \<lparr> level = SAFE, reasons = [], suggestions = [] \<rparr>"
  by (simp add: analyze_command_def)

lemma analyze_command_aggregate:
  assumes "strip command \<noteq> []" and "critical_findings command = []"
  shows "\<exists>r. analyze_command command context = Inr r
           \<and> level_value (level r)
               = max_value (lower_tier_findings command @ context_findings command context
                            @ structure_findings command)
           \<and> distinct (suggestions r)
           \<and> length (suggestions r)
               \<le> length (lower_tier_findings command @ context_findings command context
                            @ structure_findings command)
           \<and> reasons r =
               (if max_value (lower_tier_findings command @ context_findings command context
                              @ structure_findings command) = 0
                   \<and> leading_token_safe command
                then [''Safe read-only operation'']
                else map snd (lower_tier_findings command @ context_findings command context
                              @ structure_findings command))"
proof -
  let ?F = "lower_tier_findings command @ context_findings command context
            @ structure_findings command"
  obtain sr where sr: "analyze_structure command = Inr sr"
      "reasons sr = map snd (structure_findings command)"
      "level_value (level sr) = max_value (structure_findings command)"
      "length (suggestions sr) = length (structure_findings command)"
    using analyze_structure_ok by blast
  define s where "s = strip (lower command)"
  define acc where "acc =
     pattern_loop LOW ''Review the operation carefully'' low_patterns s
       (pattern_loop MEDIUM ''Verify the operation is intended and paths are correct''
          medium_patterns s
          (pattern_loop HIGH ''Double-check the target path and consider backing up first''
             high_patterns s no_risk))"
  define acc' where "acc' =
     (case context of None \<Rightarrow> acc | Some ctx \<Rightarrow> merge_risk (analyze_context command ctx) acc)"
  define A where "A = merge_risk sr acc'"
  define final where "final =
     \<lparr> level = level A, reasons = reasons A, suggestions = remdups (suggestions A) \<rparr>"
  have crit: "critical_loop critical_patterns s = None"
    using assms(2) by (simp add: critical_loop_None critical_findings_def s_def)
  have acc_reasons: "reasons acc = map snd (lower_tier_findings command)"
    by (simp add: acc_def pattern_loop_reasons lower_tier_findings_def s_def no_risk_def)
  have acc_level: "level_value (level acc) = max_value (lower_tier_findings command)"
    by (simp add: acc_def pattern_loop_level lower_tier_findings_def s_def no_risk_def
                  max_value_append max.commute max.left_commute)
  have acc'_reasons: "reasons acc' = map snd (lower_tier_findings command @ context_findings command context)"
    by (cases "context")
       (simp_all add: acc'_def acc_reasons merge_risk_def analyze_context_reasons
                      context_findings_def [of _ None])
  have acc'_level: "level_value (level acc')
      = max_value (lower_tier_findings command @ context_findings command context)"
    by (cases "context")
       (simp_all add: acc'_def acc_level merge_risk_def analyze_context_level
                      context_findings_def [of _ None] max_value_append max_value_Nil
                      level_value_raise_level max.commute)
  have acc_suggestions: "length (suggestions acc) = length (lower_tier_findings command)"
    by (simp add: acc_def pattern_loop_suggestions lower_tier_findings_def s_def no_risk_def)
  have acc'_suggestions: "length (suggestions acc')
      = length (lower_tier_findings command @ context_findings command context)"
    by (cases "context")
       (simp_all add: acc'_def acc_suggestions merge_risk_def analyze_context_suggestions
                      context_findings_def [of _ None])
  have "length (suggestions A) = length ?F"
    by (simp add: A_def merge_risk_def acc'_suggestions sr(4))
  then have final_suggestions: "length (suggestions final) \<le> length ?F"
    using length_remdups_leq [of "suggestions A"] by (simp add: final_def)
  have final_distinct: "distinct (suggestions final)"
    by (simp add: final_def)
  have final_level: "level final = level A" and final_reasons: "reasons final = reasons A"
    by (simp_all add: final_def)
  have A_reasons: "reasons A = map snd ?F"
    by (simp add: A_def merge_risk_def acc'_reasons sr(2))
  have A_level: "level_value (level A) = max_value ?F"
    by (simp add: A_def merge_risk_def acc'_level sr(3) max_value_append
                  level_value_raise_level max.commute max.left_commute)
  have safe_iff: "level A = SAFE \<longleftrightarrow> max_value ?F = 0"
    using A_level by (cases "level A") auto
  have unfold: "analyze_command command context =
      (if level A = SAFE then
         (case shlex_split command of
            Inr parts \<Rightarrow>
              (case parts of
                 [] \<Rightarrow> Inr final
               | first # _ \<Rightarrow>
                   if first \<in> set safe_prefixes then
                     Inr \<lparr> level = SAFE, reasons = [''Safe read-only operation''],
                           suggestions = [] \<rparr>
                   else Inr final)
          | Inl ValueError \<Rightarrow> Inr final
          | Inl e \<Rightarrow> Inl e)
       else Inr final)"
    unfolding analyze_command_def Let_def final_def A_def acc'_def acc_def s_def
    using assms(1) crit [unfolded s_def] sr(1)
    by (simp only: if_False sum.case option.case)
  have final_ok: "level_value (level final) = max_value ?F \<and> distinct (suggestions final)
      \<and> length (suggestions final) \<le> length ?F \<and> reasons final = map snd ?F"
    using final_level final_reasons A_level A_reasons final_suggestions final_distinct by simp
  show ?thesis
  proof (cases "level A = SAFE")
    case False
    then have "analyze_command command context = Inr final" using unfold by simp
    moreover have "max_value ?F \<noteq> 0" using False safe_iff by simp
    ultimately show ?thesis using final_ok by simp
  next
    case True
    then have zero: "max_value ?F = 0" using safe_iff by simp
    show ?thesis
    proof (cases "shlex_split command")
      case (Inl e)
      then have e: "shlex_split command = Inl ValueError" using shlex_split_error by blast
      have "analyze_command command context = Inr final"
        using unfold True e by simp
      moreover have "\<not> leading_token_safe command"
        by (simp add: leading_token_safe_def e)
      ultimately show ?thesis using final_ok by simp
    next
      case (Inr parts)
      show ?thesis
      proof (cases "leading_token_safe command")
        case True
        then obtain first rest where parts: "parts = first # rest" "first \<in> set safe_prefixes"
          using Inr by (cases parts) (simp_all add: leading_token_safe_def)
        have "analyze_command command context =
                Inr \<lparr> level = SAFE, reasons = [''Safe read-only operation''],
                      suggestions = [] \<rparr>"
          using unfold \<open>level A = SAFE\<close> Inr parts by simp
        then show ?thesis using True zero by simp
      next
        case False
        have "analyze_command command context = Inr final"
          using unfold \<open>level A = SAFE\<close> Inr False
          by (cases parts) (simp_all add: leading_token_safe_def)
        then show ?thesis using False final_ok by simp
      qed
    qed
  qed
qed

section \<open>Blank commands, critical patterns and the levels of findings\<close>

lemma strip_empty_iff: "strip s = [] \<longleftrightarrow> (\<forall>c \<in> set s. py_isspace c)"
proof -
  have "dropWhile py_isspace s = []" if "\<forall>c \<in> set (dropWhile py_isspace s). py_isspace c"
  proof (rule ccontr)
    assume ne: "dropWhile py_isspace s \<noteq> []"
    then have "\<not> py_isspace (hd (dropWhile py_isspace s))" by (rule hd_dropWhile)
    moreover have "hd (dropWhile py_isspace s) \<in> set (dropWhile py_isspace s)"
      using ne by (rule hd_in_set)
    ultimately show False using that by blast
  qed
  then have *: "(\<forall>c \<in> set (dropWhile py_isspace s). py_isspace c)
               \<longleftrightarrow> dropWhile py_isspace s = []"
    by (metis empty_iff list.set(1))
  have "strip s = [] \<longleftrightarrow> (\<forall>c \<in> set (dropWhile py_isspace s). py_isspace c)"
    by (simp only: strip_def rev_is_Nil_conv dropWhile_eq_Nil_conv set_rev)
  also have "\<dots> \<longleftrightarrow> (\<forall>c \<in> set s. py_isspace c)"
    by (simp only: * dropWhile_eq_Nil_conv)
  finally show ?thesis .
qed

lemma py_isspace_lower_char: "py_isspace (lower_char c) = py_isspace c"
  by (auto simp: py_isspace_def lower_char_def Let_def)

lemma strip_lower_empty: "strip (lower s) = [] \<longleftrightarrow> strip s = []"
  by (simp add: strip_empty_iff lower_def py_isspace_lower_char)

lemma critical_not_nullable: "(p, reason) \<in> set critical_patterns \<Longrightarrow> \<not> nullable p"
  by (auto simp: critical_patterns_def ws1_def ws0_def any0_def some_def)

lemma tier_findings_empty_iff:
  "tier_findings lvl ps s = [] \<longleftrightarrow> (\<forall>(p, reason) \<in> set ps. \<not> re_search p s)"
  by (auto simp: tier_findings_def filter_empty_conv)

lemma critical_findings_not_blank:
  assumes "critical_findings command \<noteq> []"
  shows "strip command \<noteq> []"
proof
  assume "strip command = []"
  then have blank: "strip (lower command) = []" by (simp add: strip_lower_empty)
  from assms have "\<not> (\<forall>(p, reason) \<in> set critical_patterns. \<not> re_search p [])"
    unfolding critical_findings_def blank tier_findings_empty_iff .
  then obtain p reason where "(p, reason) \<in> set critical_patterns" "re_search p []"
    by blast
  then show False using critical_not_nullable [of p reason] by simp
qed

lemma level_value_le: "level_value l \<le> 4"
  by (cases l) simp_all

lemma max_value_le: "max_value fs \<le> 4"
  by (induction fs) (simp_all add: max_value_Nil max_value_Cons level_value_le)

lemma findings_not_safe: "f \<in> set (all_findings command context) \<Longrightarrow> fst f \<noteq> SAFE"
  by (auto simp: all_findings_def critical_findings_def lower_tier_findings_def
                 tier_findings_def context_findings_def structure_findings_def
           split: if_splits option.splits sum.splits list.splits)

lemma critical_loop_hd:
  "tier_findings CRITICAL ps s \<noteq> [] \<Longrightarrow>
     critical_loop ps s =
       Some \<lparr> level = CRITICAL, reasons = [snd (hd (tier_findings CRITICAL ps s))],
              suggestions = [''This command can cause irreversible system damage'',
                             ''Consider alternatives or seek expert help''] \<rparr>"
  by (induction ps s rule: critical_loop.induct)
     (auto simp: tier_findings_Nil tier_findings_Cons)

lemma analyze_command_critical_hd:
  assumes "critical_findings command \<noteq> []"
  shows "analyze_command command context =
           Inr \<lparr> level = CRITICAL, reasons = [snd (hd (critical_findings command))],
                 suggestions = [''This command can cause irreversible system damage'',
                                ''Consider alternatives or seek expert help''] \<rparr>"
proof -
  have "strip command \<noteq> []" using assms by (rule critical_findings_not_blank)
  moreover note critical_loop_hd [OF assms [unfolded critical_findings_def]]
  ultimately show ?thesis
    by (simp add: analyze_command_def Let_def critical_findings_def)
qed

lemma max_value_critical:
  assumes "critical_findings command \<noteq> []"
  shows "max_value (all_findings command context) = 4"
proof -
  have "max_value (critical_findings command) = 4"
    using assms by (simp add: critical_findings_def max_value_tier)
  moreover have "max_value (lower_tier_findings command @ context_findings command context
                            @ structure_findings command) \<le> 4"
    by (rule max_value_le)
  ultimately show ?thesis
    by (simp add: all_findings_def max_value_append)
qed

lemma all_findings_no_critical:
  "critical_findings command = [] \<Longrightarrow>
     all_findings command context =
       lower_tier_findings command @ context_findings command context
       @ structure_findings command"
  by (simp add: all_findings_def)

section \<open>The tokenizer on blank commands\<close>

lemma space_not_special:
  assumes "py_isspace c"
  shows "c \<noteq> shlex_escape" and "c \<notin> set shlex_quotes"
  using assms by (auto simp: py_isspace_def shlex_escape_def shlex_quotes_def Let_def)

lemma emit_spaces:
  assumes "\<exists>ts. r = Inr ts \<and> (\<forall>t \<in> set ts. \<forall>c \<in> set t. py_isspace c)"
    and "\<forall>c \<in> set tok. py_isspace c"
  shows "\<exists>ts. emit tok r = Inr ts \<and> (\<forall>t \<in> set ts. \<forall>c \<in> set t. py_isspace c)"
  using assms by (auto simp: emit_def)

lemma read_tokens_spaces:
  assumes "\<forall>c \<in> set s. py_isspace c" and "\<forall>c \<in> set tok. py_isspace c"
    and "st = Blank \<or> st = Word"
  shows "\<exists>ts. read_tokens st es tok q s = Inr ts
              \<and> (\<forall>t \<in> set ts. \<forall>c \<in> set t. py_isspace c)"
  using assms
proof (induction s arbitrary: st es tok q)
  case Nil
  then show ?case by auto
next
  case (Cons c s)
  then have c: "py_isspace c" and s: "\<forall>c \<in> set s. py_isspace c" by simp_all
  note sp = space_not_special [OF c]
  have fresh: "\<exists>ts. read_tokens Blank Blank [] False s = Inr ts
                    \<and> (\<forall>t \<in> set ts. \<forall>c \<in> set t. py_isspace c)"
    by (rule Cons.IH [OF s]) simp_all
  have keep: "\<exists>ts. read_tokens Blank es tok q s = Inr ts
                    \<and> (\<forall>t \<in> set ts. \<forall>c \<in> set t. py_isspace c)"
    by (rule Cons.IH [OF s Cons.prems(2)]) simp
  have start: "\<exists>ts. read_tokens Word es [c] q s = Inr ts
                    \<and> (\<forall>t \<in> set ts. \<forall>c \<in> set t. py_isspace c)"
    by (rule Cons.IH [OF s]) (simp_all add: c)
  have grow: "\<exists>ts. read_tokens Word es (tok @ [c]) q s = Inr ts
                    \<and> (\<forall>t \<in> set ts. \<forall>c \<in> set t. py_isspace c)"
    by (rule Cons.IH [OF s]) (use Cons.prems(2) c in simp_all)
  have emitted: "\<exists>ts. emit tok (read_tokens Blank Blank [] False s) = Inr ts
                    \<and> (\<forall>t \<in> set ts. \<forall>c \<in> set t. py_isspace c)"
    by (rule emit_spaces [OF fresh Cons.prems(2)])
  show ?case
  proof (cases "c \<in> set shlex_whitespace")
    case True
    show ?thesis
    proof (cases "tok \<noteq> [] \<or> q")
      case True
      have "read_tokens st es tok q (c # s) = emit tok (read_tokens Blank Blank [] False s)"
        using Cons.prems(3) \<open>c \<in> set shlex_whitespace\<close> True by auto
      with emitted show ?thesis by (simp only:)
    next
      case False
      have "read_tokens st es tok q (c # s) = read_tokens Blank es tok q s"
        using Cons.prems(3) \<open>c \<in> set shlex_whitespace\<close> False by auto
      with keep show ?thesis by (simp only:)
    qed
  next
    case False
    from Cons.prems(3) show ?thesis
    proof
      assume "st = Blank"
      then have "read_tokens st es tok q (c # s) = read_tokens Word es [c] q s"
        using False sp by simp
      with start show ?thesis by (simp only:)
    next
      assume "st = Word"
      then have "read_tokens st es tok q (c # s) = read_tokens Word es (tok @ [c]) q s"
        using False sp by simp
      with grow show ?thesis by (simp only:)
    qed
  qed
qed

lemma safe_prefix_not_blank:
  "p \<in> set safe_prefixes \<Longrightarrow> \<exists>c \<in> set p. \<not> py_isspace c"
  by (auto simp: safe_prefixes_def py_isspace_def)

lemma blank_tokenizes:
  assumes "strip command = []"
  shows "\<exists>ts. shlex_split command = Inr ts" and "\<not> leading_token_safe command"
proof -
  have "\<forall>c \<in> set command. py_isspace c" using assms by (simp add: strip_empty_iff)
  then obtain ts where ts: "shlex_split command = Inr ts"
      "\<forall>t \<in> set ts. \<forall>c \<in> set t. py_isspace c"
    unfolding shlex_split_def using read_tokens_spaces [where s = command and tok = "[]" and st = Blank and es = Blank
        and q = False] by auto
  show "\<exists>ts. shlex_split command = Inr ts" using ts(1) by blast
  show "\<not> leading_token_safe command"
    using ts safe_prefix_not_blank by (cases ts) (auto simp: leading_token_safe_def)
qed

lemma level_value_zero: "level_value l = 0 \<longleftrightarrow> l = SAFE"
  by (cases l) simp_all

section \<open>Stripping does not change a critical match\<close>

lemma nullable_mk_seq: "nullable (mk_seq r s) = (nullable r \<and> nullable s)"
  by (auto simp: mk_seq_def)

lemma nullable_mk_alt: "nullable (mk_alt r s) = (nullable r \<or> nullable s)"
  by (auto simp: mk_alt_def)

lemma ends_nonspace_mk_seq:
  "ends_nonspace s \<Longrightarrow> (nullable s \<Longrightarrow> ends_nonspace r) \<Longrightarrow> ends_nonspace (mk_seq r s)"
  by (auto simp: mk_seq_def)

lemma ends_nonspace_mk_alt:
  "ends_nonspace r \<Longrightarrow> ends_nonspace s \<Longrightarrow> ends_nonspace (mk_alt r s)"
  by (auto simp: mk_alt_def)

lemma ends_nonspace_deriv: "ends_nonspace r \<Longrightarrow> ends_nonspace (deriv c r)"
  by (induction r) (auto intro!: ends_nonspace_mk_seq ends_nonspace_mk_alt)

lemma not_nullable_deriv_space:
  "ends_nonspace r \<Longrightarrow> py_isspace c \<Longrightarrow> \<not> nullable (deriv c r)"
  by (induction r) (auto simp: nullable_mk_seq nullable_mk_alt)

lemma match_prefix_drop_last:
  "ends_nonspace r \<Longrightarrow> py_isspace c \<Longrightarrow> match_prefix r (u @ [c]) \<Longrightarrow> match_prefix r u"
proof (induction u arbitrary: r)
  case Nil
  then show ?case using not_nullable_deriv_space by auto
next
  case (Cons d u)
  then show ?case using ends_nonspace_deriv by auto
qed

lemma re_search_drop_last:
  "ends_nonspace r \<Longrightarrow> py_isspace c \<Longrightarrow> re_search r (t @ [c]) \<Longrightarrow> re_search r t"
proof (induction t)
  case Nil
  then show ?case using not_nullable_deriv_space by auto
next
  case (Cons d t)
  then show ?case using match_prefix_drop_last [of r c "d # t"] by auto
qed

lemma match_prefix_Nothing: "\<not> match_prefix Nothing s"
  by (induction s) simp_all

lemma re_search_drop_first:
  "starts_nonspace r \<Longrightarrow> py_isspace c \<Longrightarrow> re_search r (c # s) \<Longrightarrow> re_search r s"
  by (simp add: starts_nonspace_def match_prefix_Nothing)

lemma re_search_dropWhile:
  "starts_nonspace r \<Longrightarrow> re_search r s \<Longrightarrow> re_search r (dropWhile py_isspace s)"
proof (induction s)
  case Nil
  then show ?case by simp
next
  case (Cons c s)
  show ?case
  proof (cases "py_isspace c")
    case True
    with Cons.prems have "re_search r s" by (rule_tac re_search_drop_first)
    with Cons.IH Cons.prems(1) have "re_search r (dropWhile py_isspace s)" by blast
    with True show ?thesis by simp
  next
    case False
    with Cons.prems(2) show ?thesis by simp
  qed
qed

lemma re_search_drop_trailing:
  "ends_nonspace r \<Longrightarrow> re_search r t \<Longrightarrow> re_search r (rev (dropWhile py_isspace (rev t)))"
proof (induction t rule: rev_induct)
  case Nil
  then show ?case by simp
next
  case (snoc c t)
  show ?case
  proof (cases "py_isspace c")
    case True
    with snoc.prems have "re_search r t" by (rule_tac re_search_drop_last)
    with snoc.IH snoc.prems(1) have "re_search r (rev (dropWhile py_isspace (rev t)))" by blast
    with True show ?thesis by simp
  next
    case False
    with snoc.prems(2) show ?thesis by simp
  qed
qed

lemma re_search_strip:
  assumes "starts_nonspace r" and "ends_nonspace r" and "re_search r s"
  shows "re_search r (strip s)"
proof -
  have "re_search r (dropWhile py_isspace s)"
    using assms(1,3) by (rule re_search_dropWhile)
  with assms(2) show ?thesis
    unfolding strip_def by (rule re_search_drop_trailing)
qed

lemma match_prefix_append: "match_prefix r u \<Longrightarrow> match_prefix r (u @ v)"
proof (induction u arbitrary: r)
  case Nil
  then show ?case by (cases v) simp_all
next
  case (Cons d u)
  then show ?case by auto
qed

lemma re_search_append: "re_search r t \<Longrightarrow> re_search r (t @ v)"
proof (induction t)
  case Nil
  then show ?case by (cases v) simp_all
next
  case (Cons d t)
  from Cons.prems have "match_prefix r (d # t) \<or> re_search r t" by simp
  then show ?case
  proof
    assume "match_prefix r (d # t)"
    then have "match_prefix r ((d # t) @ v)" by (rule match_prefix_append)
    then show ?thesis by simp
  next
    assume "re_search r t"
    then have "re_search r (t @ v)" by (rule Cons.IH)
    then show ?thesis by simp
  qed
qed

lemma re_search_prepend: "re_search r t \<Longrightarrow> re_search r (u @ t)"
  by (induction u) simp_all

lemma strip_factor: "\<exists>u v. s = u @ strip s @ v"
proof -
  let ?d = "dropWhile py_isspace s"
  have 1: "s = takeWhile py_isspace s @ ?d" by simp
  have "rev ?d = takeWhile py_isspace (rev ?d) @ dropWhile py_isspace (rev ?d)"
    by simp
  then have "rev (rev ?d) = rev (takeWhile py_isspace (rev ?d) @ dropWhile py_isspace (rev ?d))"
    by (rule arg_cong)
  then have 2: "?d = strip s @ rev (takeWhile py_isspace (rev ?d))"
    by (simp only: rev_rev_ident rev_append strip_def)
  have "s = takeWhile py_isspace s @ strip s @ rev (takeWhile py_isspace (rev ?d))"
    using 1 2 by metis
  then show ?thesis by blast
qed

lemma re_search_unstrip:
  assumes "re_search r (strip s)"
  shows "re_search r s"
proof -
  obtain u v where s: "s = u @ strip s @ v" using strip_factor by blast
  have "re_search r (strip s @ v)" using assms by (rule re_search_append)
  then have "re_search r (u @ strip s @ v)" by (rule re_search_prepend)
  then show ?thesis using s by metis
qed

lemma space_not_letter:
  "py_isspace c \<Longrightarrow> c \<noteq> CHR ''r'' \<and> c \<noteq> CHR '':'' \<and> c \<noteq> CHR ''d'' \<and> c \<noteq> CHR ''m''
     \<and> c \<noteq> CHR ''e''"
  by (auto simp: py_isspace_def)

lemma critical_ends_nonspace:
  "(p, reason) \<in> set critical_patterns \<Longrightarrow> ends_nonspace p"
  by (auto simp: critical_patterns_def ws1_def ws0_def any0_def some_def py_isspace_def)

lemma critical_starts_nonspace:
  "(p, reason) \<in> set critical_patterns \<Longrightarrow> starts_nonspace p"
  unfolding critical_patterns_def starts_nonspace_def
  by (auto simp: mk_seq_def dest!: space_not_letter)

lemma critical_match_strip:
  assumes "(p, reason) \<in> set critical_patterns"
  shows "re_search p (strip s) \<longleftrightarrow> re_search p s"
  using assms re_search_strip re_search_unstrip critical_starts_nonspace critical_ends_nonspace
  by blast

section \<open>Prompts and execution in a run\<close>

lemma prompts_append: "prompts (xs @ ys) = prompts xs @ prompts ys"
  by (induction xs rule: prompts.induct) simp_all

lemma executed_append: "executed (xs @ ys) \<longleftrightarrow> executed xs \<or> executed ys"
  by (induction xs rule: executed.induct) simp_all

lemma verdict_not_blank:
  assumes "analyze_command command context = Inr risk" and "level risk \<noteq> SAFE"
  shows "strip command \<noteq> []"
  using assms by (auto simp: analyze_command_blank)

lemma direct_without_safe_mode:
  assumes "analyze_command command context = Inr risk" and "\<not> safe_mode config"
  shows "handle_direct_command config context user command = Inr [Execute command, Display]"
  using assms by (simp add: handle_direct_command_def)

text \<open>
  With safe mode on, a direct command whose verdict needs confirmation never reaches a
  prompt: the comparison of two members of \<open>DangerLevel\<close> raises.
\<close>

lemma direct_with_safe_mode_raises:
  assumes "analyze_command command context = Inr risk" and "safe_mode config"
    and "requires_confirmation risk"
  shows "handle_direct_command config context user command = Inl TypeError"
  using assms by (simp add: handle_direct_command_def enum_ge_def)

text \<open>
  The natural-language flow. For a verdict of level \<open>CRITICAL\<close> it asks two different
  confirmations in sequence, both with default decline; declining the first ends the run
  with \<open>Command cancelled for safety.\<close>, declining the second with
  \<open>Command cancelled.\<close>, and the command is executed only after both are accepted. For
  a verdict of level \<open>MEDIUM\<close> it asks exactly one, with default accept.
\<close>

lemma natural_critical_confirmation:
  assumes "analyze_command (rsp_command response) context = Inr risk"
    and "level risk = CRITICAL"
    and "rsp_error response = None \<or> rsp_error response = Some []"
  shows "\<exists>trace. handle_natural_language config context user response = Inr trace
            \<and> prompts trace =
                (if user 0
                 then [(''Type 'I understand the risks' to continue'', False),
                       (''Are you absolutely certain you want to proceed?'', False)]
                 else [(''Type 'I understand the risks' to continue'', False)])
            \<and> executed trace = (user 0 \<and> user 1)
            \<and> (\<not> user 0 \<longrightarrow> last trace = Print ''Command cancelled for safety.'')
            \<and> (user 0 \<and> \<not> user 1 \<longrightarrow> last trace = Print ''Command cancelled.'')"
proof -
  have nb: "strip (rsp_command response) \<noteq> []"
    using verdict_not_blank [OF assms(1)] assms(2) by simp
  have rc: "requires_confirmation risk"
    using assms(2) by (simp add: requires_confirmation_def)
  show ?thesis
    using assms nb rc
    by (auto simp: handle_natural_language_def Let_def prompts_append executed_append)
qed

lemma natural_medium_confirmation:
  assumes "analyze_command (rsp_command response) context = Inr risk"
    and "level risk = MEDIUM"
    and "rsp_error response = None \<or> rsp_error response = Some []"
  shows "\<exists>trace. handle_natural_language config context user response = Inr trace
            \<and> prompts trace = [(''Proceed with this potentially risky command?'', True)]
            \<and> executed trace = user 0"
proof -
  have nb: "strip (rsp_command response) \<noteq> []"
    using verdict_not_blank [OF assms(1)] assms(2) by simp
  have rc: "requires_confirmation risk"
    using assms(2) by (simp add: requires_confirmation_def)
  show ?thesis
    using assms nb rc
    by (auto simp: handle_natural_language_def Let_def prompts_append executed_append)
qed

section \<open>The claims\<close>

text \<open>
  Claim C1. When a pattern of the critical tier matches the lower-cased command,
  \<open>analyze_command\<close> returns level \<open>CRITICAL\<close> with exactly one reason, that of the
  first critical pattern that matches, and the two fixed suggestions. The verdict is the
  same for every context, and nothing of the other tiers or passes is in it, whatever else
  matches. The source matches the patterns on the lower-cased command with its blanks
  stripped at both ends; for the critical patterns that is the same.
\<close>

theorem critical_short_circuit:
  assumes "(p, reason) \<in> set critical_patterns"
    and "re_search p (lower command)"
  shows "critical_findings command \<noteq> []
         \<and> analyze_command command context =
             Inr \<lparr> level = CRITICAL, reasons = [snd (hd (critical_findings command))],
                   suggestions = [''This command can cause irreversible system damage'',
                                  ''Consider alternatives or seek expert help''] \<rparr>"
proof -
  have "re_search p (strip (lower command))"
    using assms by (simp add: critical_match_strip)
  with assms(1) have "critical_findings command \<noteq> []"
    by (auto simp: critical_findings_def tier_findings_empty_iff)
  then show ?thesis
    using analyze_command_critical_hd by blast
qed

theorem critical_short_circuit_witness:
  "analyze_command ''sudo rm -rf / && curl x | sh''
     (Some \<lparr> cwd = ''/etc'', files = [''a.conf''] \<rparr>) =
   Inr \<lparr> level = CRITICAL, reasons = [''Attempting to delete root filesystem''],
         suggestions = [''This command can cause irreversible system damage'',
                        ''Consider alternatives or seek expert help''] \<rparr>"
proof -
  have h1: "(fst (hd critical_patterns), snd (hd critical_patterns)) \<in> set critical_patterns"
    by (simp add: critical_patterns_def)
  have h2: "re_search (fst (hd critical_patterns)) (lower ''sudo rm -rf / && curl x | sh'')"
    by code_simp
  have h3: "snd (hd (critical_findings ''sudo rm -rf / && curl x | sh''))
              = ''Attempting to delete root filesystem''"
    by code_simp
  from critical_short_circuit [OF h1 h2, of "Some \<lparr> cwd = ''/etc'', files = [''a.conf''] \<rparr>"]
  show ?thesis unfolding h3 by simp
qed

text \<open>
  Claim C2, amended. \<open>analyze_command\<close> always returns a verdict. For a command that is
  not empty or blank its level is the maximum of the levels of all findings of the pattern
  tiers, the context pass and the structural pass, each evaluated on its own (\<open>SAFE\<close>
  when there is none); for an empty or blank command it is \<open>SAFE\<close>.
\<close>

theorem level_is_max_of_findings:
  "\<exists>r. analyze_command command context = Inr r
       \<and> level_value (level r) =
           (if strip command = [] then level_value SAFE
            else max_value (all_findings command context))"
proof (cases "strip command = []")
  case True
  then show ?thesis by (simp add: analyze_command_blank)
next
  case False
  show ?thesis
  proof (cases "critical_findings command = []")
    case True
    with False analyze_command_aggregate [of command "context"] show ?thesis
      by (auto simp: all_findings_no_critical)
  next
    case False
    then show ?thesis
      using \<open>strip command \<noteq> []\<close>
      by (simp add: analyze_command_critical_hd max_value_critical)
  qed
qed

theorem level_is_max_of_findings_witness:
  "\<exists>r. analyze_command ''rm -rf build; ls'' None = Inr r
       \<and> level_value (level r) = 2
       \<and> max_value (all_findings ''rm -rf build; ls'' None) = 2"
proof -
  have a: "strip ''rm -rf build; ls'' \<noteq> []" by code_simp
  have b: "all_findings ''rm -rf build; ls'' None
             = [(MEDIUM, ''Recursive deletion''), (LOW, ''Command contains multiple operations'')]"
    by code_simp
  have c: "max_value (all_findings ''rm -rf build; ls'' None) = 2"
    unfolding b by (simp add: max_value_Cons max_value_Nil)
  from level_is_max_of_findings [of "''rm -rf build; ls''" None] a c
  show ?thesis by simp
qed

text \<open>
  Claim C2 as first stated, for every command, fails at the empty command in the working
  directory \<open>/etc\<close>: the context pass on its own gives a \<open>MEDIUM\<close> finding, and the
  verdict is \<open>SAFE\<close>.
\<close>

theorem level_is_max_of_findings_counterexample:
  "analyze_command [] (Some \<lparr> cwd = ''/etc'', files = [] \<rparr>)
     = Inr \<lparr> level = SAFE, reasons = [], suggestions = [] \<rparr>
   \<and> all_findings [] (Some \<lparr> cwd = ''/etc'', files = [] \<rparr>)
       = [(MEDIUM, ''Operating in protected directory: /etc'')]
   \<and> level_value SAFE
       \<noteq> max_value (all_findings [] (Some \<lparr> cwd = ''/etc'', files = [] \<rparr>))"
proof -
  have a: "analyze_command [] (Some \<lparr> cwd = ''/etc'', files = [] \<rparr>)
             = Inr \<lparr> level = SAFE, reasons = [], suggestions = [] \<rparr>"
    by code_simp
  have b: "all_findings [] (Some \<lparr> cwd = ''/etc'', files = [] \<rparr>)
             = [(MEDIUM, ''Operating in protected directory: /etc'')]"
    by code_simp
  show ?thesis
    unfolding a b by (simp add: max_value_Cons max_value_Nil)
qed

text \<open>
  Claim C3. A command whose verdict is \<open>CRITICAL\<close> is to be confirmed twice, in sequence,
  with default decline both times, in the natural-language flow and in the direct-command
  flow, and declining either prompt is to cancel it. The natural-language flow does so
  (\<open>natural_critical_confirmation\<close>). The direct-command flow does not: for
  \<open>rm -rf /\<close> typed directly under the default configuration, the verdict is
  \<open>CRITICAL\<close> and the handler raises \<open>TypeError\<close> at its comparison of levels, before
  any prompt, whatever the user would answer.
\<close>

theorem critical_direct_raises:
  "analyze_command ''rm -rf /'' None =
     Inr \<lparr> level = CRITICAL, reasons = [''Attempting to delete root filesystem''],
           suggestions = [''This command can cause irreversible system damage'',
                          ''Consider alternatives or seek expert help''] \<rparr>
   \<and> handle_direct_command \<lparr> always_confirm = True, safe_mode = True \<rparr> None decline_all
        ''rm -rf /'' = Inl TypeError
   \<and> handle_direct_command \<lparr> always_confirm = True, safe_mode = True \<rparr> None accept_all
        ''rm -rf /'' = Inl TypeError"
  by code_simp

text \<open>
  Claim C4. \<open>sudo rm -rf /var/log/*\<close> is to get a verdict of level at least \<open>HIGH\<close>
  through the pattern for recursive deletion with sudo privileges, with the finding of the
  destructive wildcard among its reasons. The code returns \<open>CRITICAL\<close> with the single
  reason \<open>Attempting to delete root filesystem\<close>: the critical pattern for \<open>rm -rf /\<close>
  is not anchored and matches the start of \<open>/var/log/*\<close>. The tier of high patterns and
  the structural pass, each on its own, give the two findings the claim names; neither is
  in the verdict.
\<close>

theorem sudo_rm_log_evaluation:
  "analyze_command ''sudo rm -rf /var/log/*'' None =
     Inr \<lparr> level = CRITICAL, reasons = [''Attempting to delete root filesystem''],
           suggestions = [''This command can cause irreversible system damage'',
                          ''Consider alternatives or seek expert help''] \<rparr>
   \<and> lower_tier_findings ''sudo rm -rf /var/log/*''
       = [(HIGH, ''Recursive deletion with sudo privileges'')]
   \<and> structure_findings ''sudo rm -rf /var/log/*''
       = [(MEDIUM, ''Wildcard usage in potentially destructive command'')]
   \<and> ''Recursive deletion with sudo privileges''
        \<notin> set [''Attempting to delete root filesystem'']
   \<and> ''Wildcard usage in potentially destructive command''
        \<notin> set [''Attempting to delete root filesystem'']"
  by code_simp

text \<open>
  Claim C5. A command with no finding from any pattern tier, the context pass or the
  structural pass gets the verdict \<open>SAFE\<close>: with the reason
  \<open>Safe read-only operation\<close> alone when its first token is a safe prefix, with no
  reason otherwise; there are no suggestions. This holds for the empty command too.
\<close>

theorem no_findings_verdict:
  assumes "all_findings command context = []"
  shows "analyze_command command context =
           Inr (if leading_token_safe command
                then \<lparr> level = SAFE, reasons = [''Safe read-only operation''],
                       suggestions = [] \<rparr>
                else \<lparr> level = SAFE, reasons = [], suggestions = [] \<rparr>)"
proof (cases "strip command = []")
  case True
  then show ?thesis
    using blank_tokenizes(2) by (simp add: analyze_command_blank)
next
  case False
  from assms have crit: "critical_findings command = []"
    and none: "lower_tier_findings command @ context_findings command context
               @ structure_findings command = []"
    by (simp_all add: all_findings_def)
  from analyze_command_aggregate [OF False crit, of "context"]
  obtain r where r: "analyze_command command context = Inr r"
    "level_value (level r) = 0" "length (suggestions r) \<le> 0"
    "reasons r = (if leading_token_safe command then [''Safe read-only operation''] else [])"
    unfolding none by (auto simp: max_value_Nil)
  then have "level r = SAFE" "suggestions r = []"
    by (simp_all add: level_value_zero)
  with r(4) have "r = (if leading_token_safe command
                then \<lparr> level = SAFE, reasons = [''Safe read-only operation''],
                       suggestions = [] \<rparr>
                else \<lparr> level = SAFE, reasons = [], suggestions = [] \<rparr>)"
    by (cases r) simp
  with r(1) show ?thesis by simp
qed

theorem no_findings_verdict_witness:
  "analyze_command ''ls -la'' None =
     Inr \<lparr> level = SAFE, reasons = [''Safe read-only operation''], suggestions = [] \<rparr>
   \<and> analyze_command ''touch notes'' None =
     Inr \<lparr> level = SAFE, reasons = [], suggestions = [] \<rparr>"
proof -
  have a: "all_findings ''ls -la'' None = []" by code_simp
  have b: "leading_token_safe ''ls -la''" by code_simp
  have c: "all_findings ''touch notes'' None = []" by code_simp
  have d: "\<not> leading_token_safe ''touch notes''" by code_simp
  from no_findings_verdict [OF a] no_findings_verdict [OF c] b d
  show ?thesis by simp
qed

text \<open>
  Claim C6, amended. \<open>analyze_command\<close> returns a verdict for every command and context:
  no exception leaves it. For a command that cannot be tokenized the level is at least
  \<open>LOW\<close>; its reasons include \<open>Command has malformed syntax\<close> when no critical pattern
  matches, and when one matches the verdict is \<open>CRITICAL\<close> with the critical reason
  alone.
\<close>

theorem never_raises_malformed:
  "\<exists>r. analyze_command command context = Inr r
       \<and> (isl (shlex_split command) \<longrightarrow>
            level_value LOW \<le> level_value (level r)
            \<and> (if critical_findings command = []
               then ''Command has malformed syntax'' \<in> set (reasons r)
               else level r = CRITICAL
                    \<and> reasons r = [snd (hd (critical_findings command))]))"
proof (cases "strip command = []")
  case True
  then show ?thesis
    using blank_tokenizes(1) [OF True] by (auto simp: analyze_command_blank)
next
  case False
  show ?thesis
  proof (cases "critical_findings command = []")
    case crit: False
    then show ?thesis by (simp add: analyze_command_critical_hd)
  next
    case crit: True
    let ?F = "lower_tier_findings command @ context_findings command context
              @ structure_findings command"
    from analyze_command_aggregate [OF False crit, of "context"]
    obtain r where r: "analyze_command command context = Inr r"
      "level_value (level r) = max_value ?F"
      "reasons r = (if max_value ?F = 0 \<and> leading_token_safe command
                    then [''Safe read-only operation''] else map snd ?F)"
      by blast
    have "level_value LOW \<le> level_value (level r)
          \<and> ''Command has malformed syntax'' \<in> set (reasons r)"
      if "isl (shlex_split command)"
    proof -
      from that obtain e where "shlex_split command = Inl e" by (cases "shlex_split command") auto
      then have m: "(LOW, ''Command has malformed syntax'') \<in> set (structure_findings command)"
        by (simp add: structure_findings_def)
      then obtain xs ys where "structure_findings command = xs @ (LOW, ''Command has malformed syntax'') # ys"
        by (auto simp: in_set_conv_decomp)
      then have "1 \<le> max_value ?F"
        by (simp add: max_value_append max_value_Cons)
      moreover from m have "''Command has malformed syntax'' \<in> set (map snd ?F)"
        by force
      ultimately show ?thesis using r(2,3) by simp
    qed
    with r(1) crit show ?thesis by simp
  qed
qed

theorem never_raises_malformed_witness:
  "isl (shlex_split (''echo '' @ [CHR 0x22] @ ''hi''))
   \<and> analyze_command (''echo '' @ [CHR 0x22] @ ''hi'') None =
       Inr \<lparr> level = LOW, reasons = [''Command has malformed syntax''],
             suggestions = [''Check command syntax before execution''] \<rparr>"
proof -
  have a: "isl (shlex_split (''echo '' @ [CHR 0x22] @ ''hi''))" by code_simp
  have b: "critical_findings (''echo '' @ [CHR 0x22] @ ''hi'') = []" by code_simp
  have c: "analyze_command (''echo '' @ [CHR 0x22] @ ''hi'') None =
       Inr \<lparr> level = LOW, reasons = [''Command has malformed syntax''],
             suggestions = [''Check command syntax before execution''] \<rparr>"
    by code_simp
  from never_raises_malformed [of "''echo '' @ [CHR 0x22] @ ''hi''" None] a b c
  show ?thesis by simp
qed

text \<open>
  Claim C6 as first stated has the malformed-syntax reason in the verdict of every command
  that cannot be tokenized. A command with an unbalanced quote that matches a critical
  pattern gets the critical reason only.
\<close>

theorem malformed_critical_counterexample:
  "shlex_split (''rm -rf / '' @ [CHR 0x22]) = Inl ValueError
   \<and> analyze_command (''rm -rf / '' @ [CHR 0x22]) None =
       Inr \<lparr> level = CRITICAL, reasons = [''Attempting to delete root filesystem''],
             suggestions = [''This command can cause irreversible system damage'',
                            ''Consider alternatives or seek expert help''] \<rparr>
   \<and> ''Command has malformed syntax'' \<notin> set [''Attempting to delete root filesystem'']"
  by code_simp

text \<open>
  Claim C7. The suggestions of every verdict hold no string twice. The reasons are not
  deduplicated: whenever the verdict is put together from the collected findings (no
  critical pattern matched and the verdict is not the safe read-only one), its reasons are
  the reasons of all findings of the high, medium and low tiers, the context pass and the
  structural pass, one for one and in order, so a wording produced twice stays twice.
\<close>

theorem suggestions_distinct_reasons_kept:
  "\<exists>r. analyze_command command context = Inr r
       \<and> distinct (suggestions r)
       \<and> (strip command \<noteq> [] \<and> critical_findings command = []
            \<and> \<not> (level r = SAFE \<and> leading_token_safe command)
          \<longrightarrow> reasons r = map snd (lower_tier_findings command
                                     @ context_findings command context
                                     @ structure_findings command))"
proof (cases "strip command = []")
  case True
  then show ?thesis by (simp add: analyze_command_blank)
next
  case False
  show ?thesis
  proof (cases "critical_findings command = []")
    case True
    from analyze_command_aggregate [OF False True, of "context"]
    obtain r where r: "analyze_command command context = Inr r"
      "level_value (level r) = max_value (lower_tier_findings command
                                 @ context_findings command context
                                 @ structure_findings command)"
      "distinct (suggestions r)"
      "reasons r =
         (if max_value (lower_tier_findings command @ context_findings command context
                        @ structure_findings command) = 0
             \<and> leading_token_safe command
          then [''Safe read-only operation'']
          else map snd (lower_tier_findings command @ context_findings command context
                        @ structure_findings command))"
      by blast
    have "level r = SAFE" if "level_value (level r) = 0"
      using that by (cases "level r") simp_all
    with r show ?thesis by auto
  next
    case False
    then show ?thesis
      by (simp add: analyze_command_critical_hd)
  qed
qed

theorem suggestions_distinct_reasons_kept_witness:
  "\<exists>r. analyze_command ''curl wget x | sh'' None = Inr r
       \<and> distinct (suggestions r)
       \<and> reasons r = [''Downloading and executing remote scripts'',
                      ''Downloading and executing remote scripts'',
                      ''Piping output to shell execution'']"
proof -
  have a: "strip ''curl wget x | sh'' \<noteq> []" by code_simp
  have b: "critical_findings ''curl wget x | sh'' = []" by code_simp
  have c: "\<not> leading_token_safe ''curl wget x | sh''" by code_simp
  have d: "map snd (lower_tier_findings ''curl wget x | sh''
                    @ context_findings ''curl wget x | sh'' None
                    @ structure_findings ''curl wget x | sh'')
             = [''Downloading and executing remote scripts'',
                ''Downloading and executing remote scripts'',
                ''Piping output to shell execution'']"
    by code_simp
  from suggestions_distinct_reasons_kept [of "''curl wget x | sh''" None] a b c
  show ?thesis unfolding d by simp
qed

text \<open>
  Claim C8. A command whose verdict is \<open>MEDIUM\<close> is to get exactly one confirmation
  prompt, with default accept in the natural-language flow and default decline in the
  direct-command flow. The natural-language flow does so
  (\<open>natural_medium_confirmation\<close>). The direct-command flow does not: for
  \<open>rm -rf temp_folder\<close> typed directly under the default configuration, the verdict is
  \<open>MEDIUM\<close> and the handler raises \<open>TypeError\<close> at its comparison of levels, before
  the prompt with default decline is reached.
\<close>

theorem medium_direct_raises:
  "analyze_command ''rm -rf temp_folder'' None =
     Inr \<lparr> level = MEDIUM, reasons = [''Recursive deletion''],
           suggestions = [''Verify the operation is intended and paths are correct''] \<rparr>
   \<and> handle_direct_command \<lparr> always_confirm = True, safe_mode = True \<rparr> None decline_all
        ''rm -rf temp_folder'' = Inl TypeError
   \<and> handle_direct_command \<lparr> always_confirm = True, safe_mode = True \<rparr> None accept_all
        ''rm -rf temp_folder'' = Inl TypeError"
  by code_simp

text \<open>
  Claim C9. A context never lowers the verdict: the level with a context is at least the
  level without one.
\<close>

theorem context_never_lowers:
  "\<exists>r0 r1. analyze_command command None = Inr r0
       \<and> analyze_command command (Some ctx) = Inr r1
       \<and> level_value (level r0) \<le> level_value (level r1)"
proof (cases "strip command = []")
  case True
  then show ?thesis by (simp add: analyze_command_blank)
next
  case False
  show ?thesis
  proof (cases "critical_findings command = []")
    case True
    from analyze_command_aggregate [OF False True, of None]
    obtain r0 where r0: "analyze_command command None = Inr r0"
      "level_value (level r0) = max_value (lower_tier_findings command
                                  @ context_findings command None
                                  @ structure_findings command)"
      by blast
    from analyze_command_aggregate [OF False True, of "Some ctx"]
    obtain r1 where r1: "analyze_command command (Some ctx) = Inr r1"
      "level_value (level r1) = max_value (lower_tier_findings command
                                  @ context_findings command (Some ctx)
                                  @ structure_findings command)"
      by blast
    have "context_findings command None = []" by (simp add: context_findings_def)
    then have "level_value (level r0) \<le> level_value (level r1)"
      unfolding r0(2) r1(2) by (simp add: max_value_append max_value_Nil)
    with r0(1) r1(1) show ?thesis by blast
  next
    case False
    then show ?thesis
      by (simp add: analyze_command_critical_hd)
  qed
qed

theorem context_never_lowers_witness:
  "\<exists>r0 r1. analyze_command ''touch notes'' None = Inr r0
       \<and> analyze_command ''touch notes'' (Some \<lparr> cwd = ''/etc'', files = [] \<rparr>) = Inr r1
       \<and> level r0 = SAFE \<and> level r1 = MEDIUM
       \<and> level_value (level r0) \<le> level_value (level r1)"
proof -
  have a: "analyze_command ''touch notes'' None
             = Inr \<lparr> level = SAFE, reasons = [], suggestions = [] \<rparr>"
    by code_simp
  have b: "level (projr (analyze_command ''touch notes''
                    (Some \<lparr> cwd = ''/etc'', files = [] \<rparr>))) = MEDIUM"
    by code_simp
  from context_never_lowers [of "''touch notes''" "\<lparr> cwd = ''/etc'', files = [] \<rparr>"] a b
  show ?thesis by auto
qed

text \<open>
  Claim C10. A verdict of level \<open>SAFE\<close> has no reasons, or the single reason
  \<open>Safe read-only operation\<close>.
\<close>

theorem safe_verdict_has_no_risk_reasons:
  assumes "analyze_command command context = Inr r" and "level r = SAFE"
  shows "reasons r = [] \<or> reasons r = [''Safe read-only operation'']"
proof (cases "strip command = []")
  case True
  with assms show ?thesis by (auto simp: analyze_command_blank)
next
  case False
  show ?thesis
  proof (cases "critical_findings command = []")
    case True
    let ?F = "lower_tier_findings command @ context_findings command context
              @ structure_findings command"
    from analyze_command_aggregate [OF False True, of "context"] assms(1)
    have lv: "level_value (level r) = max_value ?F"
      and rs: "reasons r = (if max_value ?F = 0 \<and> leading_token_safe command
                            then [''Safe read-only operation''] else map snd ?F)"
      by auto
    have "\<forall>f \<in> set ?F. fst f \<noteq> SAFE"
      using findings_not_safe [of _ command "context"]
      by (simp add: all_findings_no_critical [OF True])
    then have "?F = []"
      using lv assms(2) max_value_zero_iff [of ?F] by simp
    with rs show ?thesis by simp
  next
    case False
    with assms show ?thesis
      by (auto simp: analyze_command_critical_hd)
  qed
qed

theorem safe_verdict_has_no_risk_reasons_witness:
  "analyze_command ''ls -la'' None
     = Inr \<lparr> level = SAFE, reasons = [''Safe read-only operation''], suggestions = [] \<rparr>
   \<and> (reasons \<lparr> level = SAFE, reasons = [''Safe read-only operation''], suggestions = [] \<rparr> = []
      \<or> reasons \<lparr> level = SAFE, reasons = [''Safe read-only operation''], suggestions = [] \<rparr>
          = [''Safe read-only operation''])"
proof -
  have a: "analyze_command ''ls -la'' None
     = Inr \<lparr> level = SAFE, reasons = [''Safe read-only operation''], suggestions = [] \<rparr>"
    by code_simp
  have b: "level \<lparr> level = SAFE, reasons = [''Safe read-only operation''],
                    suggestions = [] \<rparr> = SAFE"
    by simp
  from safe_verdict_has_no_risk_reasons [OF a b] a show ?thesis by blast
qed

end
